theory Spec2Isabelle
  imports Main "HOL-Library.Sublist"
begin

chapter \<open>The model\<close>

section \<open>Strings\<close>

text \<open>
  A Python \<open>str\<close> is modelled as a \<open>string\<close>: one \<open>char\<close> per character of the
  \<open>str\<close>, read as a code point below 256. Among those code points the decimal digits
  of \<open>\d\<close> are \<open>0\<close> to \<open>9\<close>, the white space of \<open>\s\<close> and of \<open>str.strip\<close> is the set
  \<open>is_space\<close>, and \<open>len\<close> is \<open>length\<close>.
\<close>

definition ascii_lowercase :: string where
  "ascii_lowercase = ''abcdefghijklmnopqrstuvwxyz''"

definition ascii_uppercase :: string where
  "ascii_uppercase = ''ABCDEFGHIJKLMNOPQRSTUVWXYZ''"

definition ascii_letters :: string where
  "ascii_letters = ascii_lowercase @ ascii_uppercase"

definition digits :: string where
  "digits = ''0123456789''"

definition is_digit :: "char \<Rightarrow> bool" where
  "is_digit c = (c \<in> set digits)"

definition is_space :: "char \<Rightarrow> bool" where
  "is_space c = (of_char c \<in> {9, 10, 11, 12, 13, 28, 29, 30, 31, 32, 133, 160 :: nat})"

definition newline :: char where
  "newline = CHR 0x0A"

definition dquote :: char where
  "dquote = CHR 0x22"

text \<open>\<open>s.startswith(p)\<close>\<close>

fun startswith :: "string \<Rightarrow> string \<Rightarrow> bool" where
  "startswith s [] = True"
| "startswith [] (p # ps) = False"
| "startswith (c # cs) (p # ps) = (c = p \<and> startswith cs ps)"

text \<open>\<open>sub in s\<close> on two strings: \<open>sub\<close> occurs in \<open>s\<close> as a contiguous run.\<close>

fun contains :: "string \<Rightarrow> string \<Rightarrow> bool" where
  "contains [] sub = (sub = [])"
| "contains (c # cs) sub = (startswith (c # cs) sub \<or> contains cs sub)"

text \<open>
  \<open>s.replace(old, new)\<close>: the occurrences of \<open>old\<close> are replaced from the left, without
  overlap; an empty \<open>old\<close> matches before every character and at the end.
\<close>

function replace :: "string \<Rightarrow> string \<Rightarrow> string \<Rightarrow> string" where
  "replace s old new =
     (if old = [] then new @ concat (map (\<lambda>c. c # new) s)
      else case s of
        [] \<Rightarrow> []
      | c # cs \<Rightarrow>
          if startswith s old then new @ replace (drop (length old) s) old new
          else c # replace cs old new)"
  by pat_completeness auto
termination
  by (relation "measure (\<lambda>(s, old, new). length s)") auto

declare replace.simps [simp del]

text \<open>\<open>s.strip()\<close> and \<open>s.lower()\<close>\<close>

definition strip :: "string \<Rightarrow> string" where
  "strip s = rev (dropWhile is_space (rev (dropWhile is_space s)))"

definition lower_char :: "char \<Rightarrow> char" where
  "lower_char c =
     (let n = of_char c :: nat
      in if (65 \<le> n \<and> n \<le> 90) \<or> (192 \<le> n \<and> n \<le> 222 \<and> n \<noteq> 215)
         then char_of (n + 32) else c)"

definition lower :: "string \<Rightarrow> string" where
  "lower s = map lower_char s"

text \<open>The decimal numeral that an f-string writes for an \<open>int\<close>.\<close>

fun str_nat :: "nat \<Rightarrow> string" where
  "str_nat n =
     (if n < 10 then [char_of (48 + n)]
      else str_nat (n div 10) @ [char_of (48 + n mod 10)])"

declare str_nat.simps [simp del]

definition str_int :: "int \<Rightarrow> string" where
  "str_int i = (if i < 0 then CHR ''-'' # str_nat (nat (- i)) else str_nat (nat i))"

text \<open>\<open>os.path.join(a, b)\<close> on a POSIX system.\<close>

definition path_join :: "string \<Rightarrow> string \<Rightarrow> string" where
  "path_join a b =
     (if startswith b ''/'' then b
      else if a = [] \<or> last a = CHR ''/'' then a @ b
      else a @ ''/'' @ b)"

text \<open>
  \<open>os.path.dirname(p)\<close> on a POSIX system: \<open>p\<close> up to its last slash, without the
  slashes at the end of that unless it is made of slashes only.
\<close>

definition dirname :: "string \<Rightarrow> string" where
  "dirname p =
     (let head = rev (dropWhile (\<lambda>c. c \<noteq> CHR ''/'') (rev p))
      in if head \<noteq> [] \<and> \<not> list_all (\<lambda>c. c = CHR ''/'') head
         then rev (dropWhile (\<lambda>c. c = CHR ''/'') (rev head))
         else head)"

text \<open>The directories above a path, the nearest first.\<close>

function ancestors :: "string \<Rightarrow> string list" where
  "ancestors p =
     (let d = dirname p
      in if d \<noteq> [] \<and> length d < length p then d # ancestors d else [])"
  by pat_completeness auto
termination
  by (relation "measure length") auto

declare ancestors.simps [simp del]

section \<open>File names\<close>

text \<open>
  \<^verbatim>\<open>valid_chars = "-_.() %s%s" % (string.ascii_letters, string.digits)\<close>
\<close>

definition valid_chars :: string where
  "valid_chars = ''-_.() '' @ ascii_letters @ digits"

text \<open>
  \<^verbatim>\<open>
  sanitized = ''.join(c for c in name if c in valid_chars)
  sanitized = sanitized.replace(' ', '_')
  if len(sanitized) > 100:
      sanitized = sanitized[:97] + '...'
  return sanitized
  \<close>
\<close>

definition sanitize_filename :: "string \<Rightarrow> string" where
  "sanitize_filename name =
     (let sanitized = filter (\<lambda>c. c \<in> set valid_chars) name;
          sanitized = replace sanitized '' '' ''_''
      in if length sanitized > 100 then take 97 sanitized @ ''...'' else sanitized)"

text \<open>The characters of the class \<open>[A-Za-z0-9_.()-]\<close>.\<close>

definition filename_chars :: string where
  "filename_chars = ''-_.()'' @ ascii_letters @ digits"

section \<open>Image URLs\<close>

text \<open>
  \<^verbatim>\<open>url = re.sub(r's-l\d+', 's-l1600', url)\<close>

  \<open>match_size_token s\<close> matches the pattern at the start of \<open>s\<close> and gives what follows
  the match: \<open>\d+\<close> takes every digit there is. \<open>sub_size_token\<close> scans from the left, as
  \<open>re.sub\<close> does, and goes on after each match.
\<close>

definition match_size_token :: "string \<Rightarrow> string option" where
  "match_size_token s =
     (if startswith s ''s-l'' \<and> takeWhile is_digit (drop 3 s) \<noteq> []
      then Some (dropWhile is_digit (drop 3 s)) else None)"

lemma match_size_token_shorter:
  assumes "match_size_token s = Some rest"
  shows "length rest < length s"
proof -
  from assms have r: "rest = dropWhile is_digit (drop 3 s)"
    and ne: "takeWhile is_digit (drop 3 s) \<noteq> []"
    by (auto simp: match_size_token_def split: if_splits)
  have "length (takeWhile is_digit (drop 3 s)) + length rest = length (drop 3 s)"
    unfolding r by (metis length_append takeWhile_dropWhile_id)
  moreover have "0 < length (takeWhile is_digit (drop 3 s))"
    using ne by simp
  ultimately have "length rest < length (drop 3 s)"
    by linarith
  then show ?thesis
    by simp
qed

function sub_size_token :: "string \<Rightarrow> string" where
  "sub_size_token [] = []"
| "sub_size_token (c # cs) =
     (case match_size_token (c # cs) of
        Some rest \<Rightarrow> ''s-l1600'' @ sub_size_token rest
      | None \<Rightarrow> c # sub_size_token cs)"
  by pat_completeness auto
termination
  by (relation "measure length") (auto dest: match_size_token_shorter)

declare sub_size_token.simps(2) [simp del]

text \<open>
  \<^verbatim>\<open>url = re.sub(r'\?.*$', '', url)\<close>

  Without flags, \<open>.\<close> matches any character but the line feed, and \<open>$\<close> matches at the
  end of the string and before a line feed that is the last character. So the pattern
  matches at a \<open>?\<close> when no line feed follows it, or only one, at the very end; the match
  then runs up to that line feed, which stays.
\<close>

definition match_query :: "string \<Rightarrow> string option" where
  "match_query s =
     (case s of
        [] \<Rightarrow> None
      | c # cs \<Rightarrow>
          (let rest = dropWhile (\<lambda>x. x \<noteq> newline) cs
           in if c = CHR ''?'' \<and> (rest = [] \<or> rest = [newline]) then Some rest else None))"

lemma match_query_shorter: "match_query s = Some rest \<Longrightarrow> length rest < length s"
  by (auto simp: match_query_def Let_def split: list.splits if_splits
      intro: le_imp_less_Suc length_dropWhile_le)

function sub_query :: "string \<Rightarrow> string" where
  "sub_query [] = []"
| "sub_query (c # cs) =
     (case match_query (c # cs) of
        Some rest \<Rightarrow> sub_query rest
      | None \<Rightarrow> c # sub_query cs)"
  by pat_completeness auto
termination
  by (relation "measure length") (auto dest: match_query_shorter)

declare sub_query.simps(2) [simp del]

definition normalize_image_url :: "string \<Rightarrow> string" where
  "normalize_image_url url =
     (let url = sub_size_token url;
          url = sub_query url
      in url)"

text \<open>
  \<^verbatim>\<open>
  normalized_urls = {}
  for url in image_urls:
      norm_url = normalize_image_url(url)
      if norm_url not in normalized_urls:
          normalized_urls[norm_url] = url
  image_urls = list(normalized_urls.values())
  \<close>
  A \<open>dict\<close> keeps its keys in the order of their insertion: it is the list of its items.
\<close>

fun dedup_loop :: "(string \<times> string) list \<Rightarrow> string list \<Rightarrow> (string \<times> string) list" where
  "dedup_loop normalized_urls [] = normalized_urls"
| "dedup_loop normalized_urls (url # image_urls) =
     (let norm_url = normalize_image_url url
      in if map_of normalized_urls norm_url = None
         then dedup_loop (normalized_urls @ [(norm_url, url)]) image_urls
         else dedup_loop normalized_urls image_urls)"

definition dedup_image_urls :: "string list \<Rightarrow> string list" where
  "dedup_image_urls image_urls = map snd (dedup_loop [] image_urls)"

section \<open>Exceptions and the outside world\<close>

text \<open>
  An exception is a value: a step that can raise returns \<open>exn + 'a\<close>, with \<open>Inl\<close> for the
  exception raised. Every \<open>exn\<close> stands for an instance of Python's \<open>Exception\<close>, so each
  of them is caught by \<open>except Exception\<close>.
\<close>

datatype exn = RequestException | HTTPError int | ParserError | OSError | ValueError | ImageError

text \<open>
  What the code reads of a \<open>requests\<close> response: the status, the \<open>Content-Type\<close> header
  when there is one, the text, and the chunks that \<open>iter_content\<close> yields, after which it
  raises \<open>body_error\<close> when that is not \<open>None\<close>.
\<close>

record response =
  status_code :: int
  content_type_header :: "string option"
  resp_text :: string
  body_chunks :: "string list"
  body_error :: "exn option"

text \<open>
  What the code reads of a parsed page. Of an element: its \<open>.text\<close>, its \<open>.string\<close>, its
  attributes, and the result of \<open>.select('img')\<close> on it. Of the page: the results of
  \<open>select_one\<close> and \<open>select\<close> for each selector, and of
  \<open>find_all('script', type='text/javascript')\<close>.
\<close>

datatype element =
  Element (el_text: string) (el_string: "string option")
    (el_attrs: "(string \<times> string) list") (el_imgs: "element list")

record soup =
  select_one :: "string \<Rightarrow> element option"
  select :: "string \<Rightarrow> element list"
  find_all_script :: "element list"

text \<open>
  The libraries and the system, as the code calls them. \<open>http_get n url\<close> is the outcome
  of \<open>session.get\<close>, retries included, for the request issued after \<open>n\<close> earlier ones;
  \<open>parse_html\<close> is \<open>BeautifulSoup(text, 'html.parser')\<close>; \<open>unix_time\<close> is
  \<open>int(time.time())\<close>; \<open>urlparse\<close> gives the scheme and the netloc; \<open>home\<close> is
  \<open>os.path.expanduser('~')\<close>; the three \<open>_error\<close> fields say which system calls the
  system refuses for a reason that the model of the disk does not hold (permissions, a
  full disk); \<open>image_open\<close> is the decoding of a stored image by \<open>Image.open\<close>, with
  the conversion to RGB, and \<open>jpeg_encode\<close> the encoding of the decoded image as JPEG
  by \<open>img.save\<close>.
\<close>

record env =
  http_get :: "nat \<Rightarrow> string \<Rightarrow> exn + response"
  parse_html :: "string \<Rightarrow> exn + soup"
  unix_time :: int
  urlparse :: "string \<Rightarrow> exn + string \<times> string"
  urljoin :: "string \<Rightarrow> string \<Rightarrow> exn + string"
  home :: string
  makedirs_error :: "string \<Rightarrow> exn option"
  open_error :: "string \<Rightarrow> exn option"
  remove_error :: "string \<Rightarrow> exn option"
  image_open :: "string \<Rightarrow> exn + string"
  jpeg_encode :: "string \<Rightarrow> exn + string"

text \<open>
  The state that the code changes: the four counters of \<open>stats\<close>, the files and the
  directories on disk, and two traces that the code does not keep, the URLs requested and
  the arguments of the calls of \<open>download_image\<close>, both in order.
\<close>

record world =
  successful_listings :: int
  failed_listings :: int
  successful_images :: int
  failed_images :: int
  files :: "string \<rightharpoonup> string"
  dirs :: "string set"
  requests :: "string list"
  calls :: "(string \<times> string \<times> string \<times> int) list"

definition raise_for_status :: "response \<Rightarrow> exn option" where
  "raise_for_status response =
     (if 400 \<le> status_code response \<and> status_code response < 600
      then Some (HTTPError (status_code response)) else None)"

definition session_get :: "env \<Rightarrow> world \<Rightarrow> string \<Rightarrow> (exn + response) \<times> world" where
  "session_get e w url =
     (http_get e (length (requests w)) url, w\<lparr>requests := requests w @ [url]\<rparr>)"

text \<open>
  The disk: \<open>files\<close> are the regular files with their contents and \<open>dirs\<close> the
  directories, each under the string that names it.

  \<open>os.path.exists\<close>; \<open>os.makedirs\<close>, which fails on a regular file at the path or above
  it and otherwise makes the directory and those above it; \<open>open(path, 'w')\<close>, which
  fails on a directory and when the directory of the path is not there (the root and the
  current directory are), and otherwise leaves an empty file; \<open>f.write\<close>; and
  \<open>os.remove\<close>.
\<close>

definition path_exists :: "world \<Rightarrow> string \<Rightarrow> bool" where
  "path_exists w path = (files w path \<noteq> None \<or> path \<in> dirs w)"

definition makedirs :: "env \<Rightarrow> world \<Rightarrow> string \<Rightarrow> bool \<Rightarrow> exn + world" where
  "makedirs e w path exist_ok =
     (if files w path \<noteq> None then Inl OSError
      else if path \<in> dirs w then (if exist_ok then Inr w else Inl OSError)
      else if list_ex (\<lambda>a. files w a \<noteq> None) (ancestors path) then Inl OSError
      else case makedirs_error e path of
        Some err \<Rightarrow> Inl err
      | None \<Rightarrow> Inr (w\<lparr>dirs := set (path # ancestors path) \<union> dirs w\<rparr>))"

definition parent_exists :: "world \<Rightarrow> string \<Rightarrow> bool" where
  "parent_exists w path =
     (list_all (\<lambda>c. c = CHR ''/'') (dirname path) \<or> dirname path \<in> dirs w)"

definition open_write :: "env \<Rightarrow> world \<Rightarrow> string \<Rightarrow> exn + world" where
  "open_write e w path =
     (if path \<in> dirs w then Inl OSError
      else if \<not> parent_exists w path then Inl OSError
      else case open_error e path of
        Some err \<Rightarrow> Inl err
      | None \<Rightarrow> Inr (w\<lparr>files := (files w)(path \<mapsto> [])\<rparr>))"

definition file_write :: "world \<Rightarrow> string \<Rightarrow> string \<Rightarrow> world" where
  "file_write w path data =
     w\<lparr>files := (files w)(path \<mapsto> (case files w path of None \<Rightarrow> [] | Some old \<Rightarrow> old) @ data)\<rparr>"

definition os_remove :: "env \<Rightarrow> world \<Rightarrow> string \<Rightarrow> exn + world" where
  "os_remove e w path =
     (case remove_error e path of
        Some err \<Rightarrow> Inl err
      | None \<Rightarrow>
          if files w path = None then Inl OSError
          else Inr (w\<lparr>files := (files w)(path := None)\<rparr>))"

text \<open>
  \<^verbatim>\<open>
  folder_name = sanitize_filename(folder_name)
  base_dir = os.path.join(os.path.expanduser('~'), 'listing_images')
  if not os.path.exists(base_dir):
      os.makedirs(base_dir)
  folder_path = os.path.join(base_dir, folder_name)
  os.makedirs(folder_path, exist_ok=True)
  return folder_path
  \<close>
\<close>

definition create_folder :: "env \<Rightarrow> world \<Rightarrow> string \<Rightarrow> (exn + string) \<times> world" where
  "create_folder e w folder_name =
     (let folder_name = sanitize_filename folder_name;
          base_dir = path_join (home e) ''listing_images''
      in case (if \<not> path_exists w base_dir then makedirs e w base_dir False else Inr w) of
           Inl err \<Rightarrow> (Inl err, w)
         | Inr w1 \<Rightarrow>
             (let folder_path = path_join base_dir folder_name
              in case makedirs e w1 folder_path True of
                   Inl err \<Rightarrow> (Inl err, w1)
                 | Inr w2 \<Rightarrow> (Inr folder_path, w2)))"

section \<open>Downloading one image\<close>

definition ext_of_content_type :: "string \<Rightarrow> string" where
  "ext_of_content_type content_type =
     (if contains content_type ''image/jpeg'' \<or> contains content_type ''image/jpg'' then ''.jpg''
      else if contains content_type ''image/png'' then ''.png''
      else if contains content_type ''image/webp'' then ''.webp''
      else if contains content_type ''image/gif'' then ''.gif''
      else ''.jpg'')"

text \<open>\<^verbatim>\<open>f"{filename}_{index}{ext}"\<close> under \<open>folder_path\<close>\<close>

definition target_path :: "string \<Rightarrow> string \<Rightarrow> int \<Rightarrow> string \<Rightarrow> string" where
  "target_path folder_path filename index ext =
     path_join folder_path (filename @ ''_'' @ str_int index @ ext)"

text \<open>
  \<^verbatim>\<open>
  try:
      img = Image.open(file_path)
      if img.mode in ('RGBA', 'LA', 'P'):
          img = img.convert('RGB')
      jpg_path = os.path.join(folder_path, f"{filename}_{index}.jpg")
      img.save(jpg_path, 'JPEG', quality=95)
      os.remove(file_path)
      file_path = jpg_path
  except Exception as e:
      logger.warning(f"Failed to convert image to JPG: {e}")
  \<close>
  The image is decoded before \<open>img.save\<close> opens the JPEG file. When the encoding fails
  after that, \<open>img.save\<close> removes the file if it has made it, and leaves an older file
  empty.
\<close>

definition convert_to_jpg ::
  "env \<Rightarrow> world \<Rightarrow> string \<Rightarrow> string \<Rightarrow> int \<Rightarrow> string \<Rightarrow> world" where
  "convert_to_jpg e w folder_path filename index file_path =
     (case files w file_path of
        None \<Rightarrow> w
      | Some data \<Rightarrow>
          (case image_open e data of
             Inl err \<Rightarrow> w
           | Inr img \<Rightarrow>
               (let jpg_path = target_path folder_path filename index ''.jpg''
                in case open_write e w jpg_path of
                     Inl err \<Rightarrow> w
                   | Inr w1 \<Rightarrow>
                       (case jpeg_encode e img of
                          Inl err \<Rightarrow>
                            if files w jpg_path = None
                            then w1\<lparr>files := (files w1)(jpg_path := None)\<rparr>
                            else w1
                        | Inr jpeg \<Rightarrow>
                            (let w2 = file_write w1 jpg_path jpeg
                             in case os_remove e w2 file_path of
                                  Inl err \<Rightarrow> w2
                                | Inr w3 \<Rightarrow> w3)))))"

text \<open>
  The body of the \<open>try\<close> of \<open>download_image\<close>: \<open>Inr\<close> is a \<open>return\<close>, \<open>Inl\<close> an
  exception raised, each with the state reached. The pause and the request headers
  change nothing that is modelled.
\<close>

definition download_image_try ::
  "env \<Rightarrow> world \<Rightarrow> string \<Rightarrow> string \<Rightarrow> string \<Rightarrow> int \<Rightarrow> (exn + bool) \<times> world" where
  "download_image_try e w url folder_path filename index =
     (case session_get e w url of
        (Inl err, w1) \<Rightarrow> (Inl err, w1)
      | (Inr response, w1) \<Rightarrow>
          (case raise_for_status response of
             Some err \<Rightarrow> (Inl err, w1)
           | None \<Rightarrow>
               (let content_type =
                      (case content_type_header response of None \<Rightarrow> [] | Some v \<Rightarrow> v)
                in if \<not> startswith content_type ''image/''
                   then (Inr False, w1\<lparr>failed_images := failed_images w1 + 1\<rparr>)
                   else
                     (let ext = ext_of_content_type content_type;
                          file_path = target_path folder_path filename index ext
                      in if path_exists w1 file_path then (Inr True, w1)
                         else
                           (case open_write e w1 file_path of
                              Inl err \<Rightarrow> (Inl err, w1)
                            | Inr w2 \<Rightarrow>
                                (let w3 = file_write w2 file_path
                                            (concat (body_chunks response))
                                 in case body_error response of
                                      Some err \<Rightarrow> (Inl err, w3)
                                    | None \<Rightarrow>
                                        (let w4 =
                                               (if ext \<noteq> ''.jpg''
                                                then convert_to_jpg e w3 folder_path filename
                                                       index file_path
                                                else w3)
                                         in (Inr True,
                                             w4\<lparr>successful_images :=
                                                  successful_images w4 + 1\<rparr>))))))))"

text \<open>
  \<^verbatim>\<open>
  except Exception as e:
      logger.error(f"Failed to download image {url}: {e}")
      stats['failed_images'] += 1
      return False
  \<close>
\<close>

definition download_image ::
  "env \<Rightarrow> world \<Rightarrow> string \<Rightarrow> string \<Rightarrow> string \<Rightarrow> int \<Rightarrow> bool \<times> world" where
  "download_image e w url folder_path filename index =
     (case download_image_try e (w\<lparr>calls := calls w @ [(url, folder_path, filename, index)]\<rparr>)
             url folder_path filename index of
        (Inr result, w1) \<Rightarrow> (result, w1)
      | (Inl err, w1) \<Rightarrow> (False, w1\<lparr>failed_images := failed_images w1 + 1\<rparr>))"

section \<open>Extracting a listing\<close>

text \<open>\<open>el.get(key, default)\<close>\<close>

definition get_attr :: "element \<Rightarrow> string \<Rightarrow> string \<Rightarrow> string" where
  "get_attr el key dflt = (case map_of (el_attrs el) key of None \<Rightarrow> dflt | Some v \<Rightarrow> v)"

text \<open>
  \<^verbatim>\<open>urls = re.findall(r'"imageUrl"\s*:\s*"([^"]+)"', script.string)\<close>

  \<open>match_imageUrl s\<close> matches the pattern at the start of \<open>s\<close> and gives the group and
  what follows the match. No repetition of the pattern can give a character back: the
  character after \<open>\s*\<close> must be one that is not white space, and the one after
  \<open>[^"]+\<close> must be the quote.
\<close>

definition match_imageUrl :: "string \<Rightarrow> (string \<times> string) option" where
  "match_imageUrl s =
     (if startswith s ''\"imageUrl\"'' then
        (case dropWhile is_space (drop 10 s) of
           [] \<Rightarrow> None
         | c1 # s1 \<Rightarrow>
             if c1 = CHR '':'' then
               (case dropWhile is_space s1 of
                  [] \<Rightarrow> None
                | c2 # s2 \<Rightarrow>
                    if c2 = dquote then
                      (let captured = takeWhile (\<lambda>c. c \<noteq> dquote) s2;
                           rest = dropWhile (\<lambda>c. c \<noteq> dquote) s2
                       in if captured \<noteq> [] \<and> rest \<noteq> [] then Some (captured, tl rest)
                          else None)
                    else None)
             else None)
      else None)"

lemma match_imageUrl_shorter:
  assumes "match_imageUrl s = Some (captured, rest)"
  shows "length rest < length s"
proof -
  have dw: "\<And>P (xs :: string). length (dropWhile P xs) \<le> length xs"
    by (rule length_dropWhile_le)
  from assms obtain c1 s1 c2 s2 where
    1: "dropWhile is_space (drop 10 s) = c1 # s1" and
    2: "dropWhile is_space s1 = c2 # s2" and
    3: "rest = tl (dropWhile (\<lambda>c. c \<noteq> dquote) s2)"
    by (auto simp: match_imageUrl_def Let_def split: if_splits list.splits)
  have "length rest \<le> length s2"
    unfolding 3 using dw [of "\<lambda>c. c \<noteq> dquote" s2] by simp
  also have "\<dots> < length s1"
    using dw [of is_space s1] unfolding 2 by simp
  also have "\<dots> < length (drop 10 s)"
    using dw [of is_space "drop 10 s"] unfolding 1 by simp
  also have "\<dots> \<le> length s"
    by simp
  finally show ?thesis .
qed

function findall_imageUrl :: "string \<Rightarrow> string list" where
  "findall_imageUrl [] = []"
| "findall_imageUrl (c # cs) =
     (case match_imageUrl (c # cs) of
        Some (captured, rest) \<Rightarrow> captured # findall_imageUrl rest
      | None \<Rightarrow> findall_imageUrl cs)"
  by pat_completeness auto
termination
  by (relation "measure length") (auto dest: match_imageUrl_shorter)

declare findall_imageUrl.simps(2) [simp del]

text \<open>
  The title: the text of the site's own title element, or of the page's \<open>title\<close> up to
  the first \<open>|\<close>, or the site's prefix with the time.
\<close>

definition extract_title :: "env \<Rightarrow> soup \<Rightarrow> string \<Rightarrow> string \<Rightarrow> string" where
  "extract_title e sp selector site_prefix =
     (case select_one sp selector of
        Some title_elem \<Rightarrow> strip (el_text title_elem)
      | None \<Rightarrow>
          (case select_one sp ''title'' of
             Some title_elem \<Rightarrow> strip (takeWhile (\<lambda>c. c \<noteq> CHR ''|'') (el_text title_elem))
           | None \<Rightarrow> site_prefix @ str_int (unix_time e)))"

text \<open>
  The loop shared by the methods that read an attribute of \<open>img\<close> elements:
  \<^verbatim>\<open>
  for img in img_elements:
      src = img.get(attr, '')
      if src [and keep(src)]:
          image_urls.append(rewrite(src))
  \<close>
\<close>

definition append_srcs :: "string \<Rightarrow> (string \<Rightarrow> bool) \<Rightarrow> (string \<Rightarrow> string) \<Rightarrow>
    string list \<Rightarrow> element list \<Rightarrow> string list" where
  "append_srcs attr keep rewrite image_urls img_elements =
     foldl (\<lambda>image_urls img.
              (let src = get_attr img attr []
               in if src \<noteq> [] \<and> keep src then image_urls @ [rewrite src] else image_urls))
       image_urls img_elements"

text \<open>The methods of \<open>scrape_ebay_listing\<close>, each as it extends \<open>image_urls\<close>.\<close>

definition ebay_method1 :: "soup \<Rightarrow> string list \<Rightarrow> string list" where
  "ebay_method1 sp image_urls =
     foldl (\<lambda>image_urls script.
              (case el_string script of
                 None \<Rightarrow> image_urls
               | Some s \<Rightarrow>
                   if s \<noteq> [] \<and> contains s ''imageUrl''
                   then image_urls @ findall_imageUrl s else image_urls))
       image_urls (find_all_script sp)"

definition full_size :: "string \<Rightarrow> string" where
  "full_size src =
     replace (replace (replace src ''s-l64'' ''s-l1600'') ''s-l300'' ''s-l1600'')
       ''s-l400'' ''s-l1600''"

definition ebay_method2 :: "soup \<Rightarrow> string list \<Rightarrow> string list" where
  "ebay_method2 sp image_urls =
     append_srcs ''src'' (\<lambda>src. True) full_size image_urls
       (select sp ''div.ux-image-carousel-item img'')"

definition method_og_image :: "soup \<Rightarrow> string list \<Rightarrow> string list" where
  "method_og_image sp image_urls =
     (case select_one sp ''meta[property=\"og:image\"]'' of
        None \<Rightarrow> image_urls
      | Some meta_og_image \<Rightarrow>
          (case map_of (el_attrs meta_og_image) ''content'' of
             None \<Rightarrow> image_urls
           | Some content \<Rightarrow> if content \<noteq> [] then image_urls @ [content] else image_urls))"

definition method_content_area :: "string \<Rightarrow> soup \<Rightarrow> string list \<Rightarrow> string list" where
  "method_content_area selector sp image_urls =
     (case select_one sp selector of
        None \<Rightarrow> image_urls
      | Some content_area \<Rightarrow>
          append_srcs ''src'' (\<lambda>src. True) (\<lambda>src. src) image_urls (el_imgs content_area))"

definition ebay_image_urls :: "soup \<Rightarrow> string list" where
  "ebay_image_urls sp =
     (let image_urls = [];
          image_urls = ebay_method1 sp image_urls;
          image_urls = (if image_urls = [] then ebay_method2 sp image_urls else image_urls);
          image_urls = (if image_urls = [] then method_og_image sp image_urls else image_urls);
          image_urls =
            (if image_urls = [] then method_content_area ''div#vi_main_img_fs'' sp image_urls
             else image_urls)
      in image_urls)"

text \<open>The methods of \<open>scrape_swappa_listing\<close>.\<close>

definition swappa_method1 :: "soup \<Rightarrow> string list \<Rightarrow> string list" where
  "swappa_method1 sp image_urls =
     append_srcs ''src'' (\<lambda>src. True) (\<lambda>src. src) image_urls
       (select sp ''img.product-gallery__slide-image'')"

definition swappa_method2 :: "soup \<Rightarrow> string list \<Rightarrow> string list" where
  "swappa_method2 sp image_urls =
     append_srcs ''data-src''
       (\<lambda>src. contains (lower src) ''product'' \<or> contains (lower src) ''listing'')
       (\<lambda>src. src) image_urls (select sp ''img[data-src]'')"

definition swappa_image_urls :: "soup \<Rightarrow> string list" where
  "swappa_image_urls sp =
     (let image_urls = [];
          image_urls = swappa_method1 sp image_urls;
          image_urls = (if image_urls = [] then swappa_method2 sp image_urls else image_urls);
          image_urls = (if image_urls = [] then method_og_image sp image_urls else image_urls);
          image_urls =
            (if image_urls = [] then method_content_area ''div.listing_content'' sp image_urls
             else image_urls)
      in image_urls)"

text \<open>
  \<^verbatim>\<open>
  session = get_session()
  headers = ua_middleware.get_headers()
  response = session.get(url, headers=headers, timeout=15)
  response.raise_for_status()
  soup = BeautifulSoup(response.text, 'html.parser')
  \<close>
\<close>

definition fetch_soup :: "env \<Rightarrow> world \<Rightarrow> string \<Rightarrow> (exn + soup) \<times> world" where
  "fetch_soup e w url =
     (case session_get e w url of
        (Inl err, w1) \<Rightarrow> (Inl err, w1)
      | (Inr response, w1) \<Rightarrow>
          (case raise_for_status response of
             Some err \<Rightarrow> (Inl err, w1)
           | None \<Rightarrow> (parse_html e (resp_text response), w1)))"

definition scrape_ebay_listing_try ::
  "env \<Rightarrow> world \<Rightarrow> string \<Rightarrow> (exn + string \<times> string list) \<times> world" where
  "scrape_ebay_listing_try e w url =
     (case fetch_soup e w url of
        (Inl err, w1) \<Rightarrow> (Inl err, w1)
      | (Inr sp, w1) \<Rightarrow>
          (let title = extract_title e sp ''h1.x-item-title__mainTitle span'' ''eBay_Item_'';
               image_urls = ebay_image_urls sp;
               image_urls = dedup_image_urls image_urls
           in (Inr (title, image_urls), w1)))"

text \<open>
  \<^verbatim>\<open>
  except Exception as e:
      logger.error(f"Failed to scrape eBay listing {url}: {e}")
      return None, []
  \<close>
\<close>

definition scrape_ebay_listing ::
  "env \<Rightarrow> world \<Rightarrow> string \<Rightarrow> (string option \<times> string list) \<times> world" where
  "scrape_ebay_listing e w url =
     (case scrape_ebay_listing_try e w url of
        (Inr (title, image_urls), w1) \<Rightarrow> ((Some title, image_urls), w1)
      | (Inl err, w1) \<Rightarrow> ((None, []), w1))"

text \<open>\<^verbatim>\<open>[urljoin(base_url, img_url) for img_url in image_urls]\<close>\<close>

fun urljoin_all :: "env \<Rightarrow> string \<Rightarrow> string list \<Rightarrow> exn + string list" where
  "urljoin_all e base_url [] = Inr []"
| "urljoin_all e base_url (img_url # image_urls) =
     (case urljoin e base_url img_url of
        Inl err \<Rightarrow> Inl err
      | Inr u \<Rightarrow>
          (case urljoin_all e base_url image_urls of
             Inl err \<Rightarrow> Inl err
           | Inr us \<Rightarrow> Inr (u # us)))"

text \<open>
  In \<open>scrape_swappa_listing\<close> the loop \<^verbatim>\<open>for url in image_urls:\<close> of the
  deduplication assigns to the parameter \<open>url\<close>: after it, \<open>url\<close> is the last candidate
  when there is one, and \<open>base_url\<close> is made from that.
  \<^verbatim>\<open>
  base_url = f"{urlparse(url).scheme}://{urlparse(url).netloc}"
  image_urls = [urljoin(base_url, img_url) for img_url in image_urls]
  \<close>
\<close>

definition scrape_swappa_listing_try ::
  "env \<Rightarrow> world \<Rightarrow> string \<Rightarrow> (exn + string \<times> string list) \<times> world" where
  "scrape_swappa_listing_try e w url =
     (case fetch_soup e w url of
        (Inl err, w1) \<Rightarrow> (Inl err, w1)
      | (Inr sp, w1) \<Rightarrow>
          (let title = extract_title e sp ''h1.listing_title'' ''Swappa_Item_'';
               image_urls = swappa_image_urls sp;
               url = (if image_urls = [] then url else last image_urls);
               image_urls = dedup_image_urls image_urls
           in case urlparse e url of
                Inl err \<Rightarrow> (Inl err, w1)
              | Inr (scheme, netloc) \<Rightarrow>
                  (case urljoin_all e (scheme @ ''://'' @ netloc) image_urls of
                     Inl err \<Rightarrow> (Inl err, w1)
                   | Inr image_urls \<Rightarrow> (Inr (title, image_urls), w1))))"

definition scrape_swappa_listing ::
  "env \<Rightarrow> world \<Rightarrow> string \<Rightarrow> (string option \<times> string list) \<times> world" where
  "scrape_swappa_listing e w url =
     (case scrape_swappa_listing_try e w url of
        (Inr (title, image_urls), w1) \<Rightarrow> ((Some title, image_urls), w1)
      | (Inl err, w1) \<Rightarrow> ((None, []), w1))"

section \<open>Processing one listing\<close>

text \<open>
  \<^verbatim>\<open>
  if 'ebay' in domain:
      title, image_urls = scrape_ebay_listing(url)
  elif 'swappa' in domain:
      title, image_urls = scrape_swappa_listing(url)
  else: ...
  \<close>
  \<open>None\<close> is the last branch, the unsupported site.
\<close>

definition scrape_listing ::
  "env \<Rightarrow> world \<Rightarrow> string \<Rightarrow> string \<Rightarrow> ((string option \<times> string list) \<times> world) option" where
  "scrape_listing e w url domain =
     (if contains domain ''ebay'' then Some (scrape_ebay_listing e w url)
      else if contains domain ''swappa'' then Some (scrape_swappa_listing e w url)
      else None)"

text \<open>
  \<^verbatim>\<open>
  for i, img_url in enumerate(image_urls):
      download_image(img_url, folder_path, filename_base, i+1)
  \<close>
\<close>

definition download_images ::
  "env \<Rightarrow> world \<Rightarrow> string \<Rightarrow> string \<Rightarrow> string list \<Rightarrow> world" where
  "download_images e w folder_path filename_base image_urls =
     foldl (\<lambda>w (i, img_url).
              snd (download_image e w img_url folder_path filename_base (int i + 1)))
       w (enumerate 0 image_urls)"

text \<open>The body of the \<open>try\<close> of \<open>process_listing\<close>.\<close>

definition process_listing_try :: "env \<Rightarrow> world \<Rightarrow> string \<Rightarrow> (exn + bool) \<times> world" where
  "process_listing_try e w url =
     (case urlparse e url of
        Inl err \<Rightarrow> (Inl err, w)
      | Inr (scheme, netloc) \<Rightarrow>
          (let domain = lower netloc
           in case scrape_listing e w url domain of
                None \<Rightarrow> (Inr False, w\<lparr>failed_listings := failed_listings w + 1\<rparr>)
              | Some ((title, image_urls), w1) \<Rightarrow>
                  (case title of
                     None \<Rightarrow> (Inr False, w1\<lparr>failed_listings := failed_listings w1 + 1\<rparr>)
                   | Some title \<Rightarrow>
                       if title = [] \<or> image_urls = []
                       then (Inr False, w1\<lparr>failed_listings := failed_listings w1 + 1\<rparr>)
                       else
                         (case create_folder e w1 title of
                            (Inl err, w2) \<Rightarrow> (Inl err, w2)
                          | (Inr folder_path, w2) \<Rightarrow>
                              (case open_write e w2 (path_join folder_path ''source_url.txt'') of
                                 Inl err \<Rightarrow> (Inl err, w2)
                               | Inr w3 \<Rightarrow>
                                   (let w4 = file_write w3
                                               (path_join folder_path ''source_url.txt'') url;
                                        filename_base = sanitize_filename title;
                                        w5 = download_images e w4 folder_path filename_base
                                               image_urls
                                    in (Inr True,
                                        w5\<lparr>successful_listings :=
                                             successful_listings w5 + 1\<rparr>)))))))"

text \<open>
  \<^verbatim>\<open>
  except Exception as e:
      logger.error(f"Error processing listing {url}: {e}")
      stats['failed_listings'] += 1
      return False
  \<close>
\<close>

definition process_listing :: "env \<Rightarrow> world \<Rightarrow> string \<Rightarrow> bool \<times> world" where
  "process_listing e w url =
     (case process_listing_try e w url of
        (Inr result, w1) \<Rightarrow> (result, w1)
      | (Inl err, w1) \<Rightarrow> (False, w1\<lparr>failed_listings := failed_listings w1 + 1\<rparr>))"

section \<open>The specification's selection of a strategy\<close>

text \<open>
  The specification's words: the strategies are attempted in a fixed order, stopping at
  the first that yields at least one URL, and are not merged.
\<close>

fun first_nonempty :: "'a list list \<Rightarrow> 'a list" where
  "first_nonempty [] = []"
| "first_nonempty (s # ss) = (if s \<noteq> [] then s else first_nonempty ss)"

section \<open>Notions used in the statements and proofs\<close>

text \<open>The deduplication, without the dictionary: the keys seen so far are a set.\<close>

fun keep_first :: "string set \<Rightarrow> string list \<Rightarrow> string list" where
  "keep_first seen [] = []"
| "keep_first seen (u # us) =
     (if normalize_image_url u \<in> seen then keep_first seen us
      else u # keep_first (insert (normalize_image_url u) seen) us)"

text \<open>A character that no token contains after its first character ends every token.\<close>

definition breaks_token :: "char \<Rightarrow> bool" where
  "breaks_token c = (c \<noteq> CHR ''-'' \<and> c \<noteq> CHR ''l'' \<and> \<not> is_digit c)"

text \<open>
  \<open>fs_only w w'\<close>: from \<open>w\<close> to \<open>w'\<close> nothing but the files and the directories has
  changed.
\<close>

definition fs_only :: "world \<Rightarrow> world \<Rightarrow> bool" where
  "fs_only w w' =
     (successful_listings w' = successful_listings w \<and> failed_listings w' = failed_listings w
      \<and> successful_images w' = successful_images w \<and> failed_images w' = failed_images w
      \<and> requests w' = requests w \<and> calls w' = calls w)"

text \<open>
  The case in which \<open>download_image\<close> finds its target on disk: the request succeeds
  with an image content type, and the path made from that content type exists.
\<close>

definition already_downloaded ::
  "env \<Rightarrow> world \<Rightarrow> string \<Rightarrow> string \<Rightarrow> string \<Rightarrow> int \<Rightarrow> bool" where
  "already_downloaded e w url folder_path filename index =
     (case http_get e (length (requests w)) url of
        Inl err \<Rightarrow> False
      | Inr response \<Rightarrow>
          (let content_type =
                 (case content_type_header response of None \<Rightarrow> [] | Some v \<Rightarrow> v)
           in raise_for_status response = None \<and> startswith content_type ''image/''
              \<and> path_exists w
                   (target_path folder_path filename index (ext_of_content_type content_type))))"

text \<open>The extensions that \<open>download_image\<close> gives to a file.\<close>

definition image_exts :: "string list" where
  "image_exts = [''.jpg'', ''.png'', ''.webp'', ''.gif'']"

section \<open>Example inputs\<close>

text \<open>
  An eBay page with markup for the first three methods at once: two scripts, the second
  with three image URLs of which two are the same image, a carousel image and an
  \<open>og:image\<close>.
\<close>

definition ex_soup :: soup where
  "ex_soup =
     \<lparr>select_one =
        (\<lambda>selector.
           if selector = ''h1.x-item-title__mainTitle span''
           then Some (Element ''  Red Lamp '' None [] [])
           else if selector = ''meta[property=\"og:image\"]''
           then Some (Element [] None [(''content'', ''http://i/og.jpg'')] [])
           else None),
      select =
        (\<lambda>selector.
           if selector = ''div.ux-image-carousel-item img''
           then [Element [] None [(''src'', ''http://i/s-l64/c.jpg'')] []]
           else []),
      find_all_script =
        [Element [] None [] [],
         Element []
           (Some ''{\"imageUrl\":\"http://i/s-l1600/a.jpg\", \"imageUrl\" : \"http://i/s-l500/a.jpg?v=2\", \"imageUrl\":\"http://i/s-l1600/b.jpg\"}'')
           [] []]\<rparr>"

text \<open>
  A Swappa page with a title, gallery images with relative URLs, a lazily loaded image and
  an \<open>og:image\<close>.
\<close>

definition ex_swappa_soup :: soup where
  "ex_swappa_soup =
     \<lparr>select_one =
        (\<lambda>selector.
           if selector = ''h1.listing_title''
           then Some (Element ''Pixel 7 - Good'' None [] [])
           else if selector = ''meta[property=\"og:image\"]''
           then Some (Element [] None [(''content'', ''https://swappa.com/og.jpg'')] [])
           else None),
      select =
        (\<lambda>selector.
           if selector = ''img.product-gallery__slide-image''
           then [Element [] None [(''src'', ''/static/p1.jpg'')] [],
                 Element [] None [(''alt'', ''no source'')] [],
                 Element [] None [(''src'', ''/static/p2.jpg'')] []]
           else if selector = ''img[data-src]''
           then [Element [] None [(''data-src'', ''/media/product/2.jpg'')] []]
           else []),
      find_all_script = []\<rparr>"

text \<open>
  A machine on which the system refuses no call, and a network on which two listings are
  served, \<open>https://www.ebay.com/itm/1\<close> with the eBay page above and
  \<open>https://swappa.com/listing/view/LAAA123\<close> with the Swappa page; the first image of
  the eBay listing is a JPEG, its second image is answered with an HTML page, and every
  other request fails. \<open>urlparse\<close> and \<open>urljoin\<close> are those of \<open>urllib.parse\<close> on the
  strings of these examples.
\<close>

definition ex_env :: env where
  "ex_env =
     \<lparr>http_get =
        (\<lambda>n url.
           if url = ''https://www.ebay.com/itm/1''
           then Inr \<lparr>status_code = 200, content_type_header = Some ''text/html'',
                      resp_text = ''<html>ebay</html>'', body_chunks = [], body_error = None\<rparr>
           else if url = ''https://swappa.com/listing/view/LAAA123''
           then Inr \<lparr>status_code = 200, content_type_header = Some ''text/html'',
                      resp_text = ''<html>swappa</html>'', body_chunks = [],
                      body_error = None\<rparr>
           else if url = ''http://i/s-l1600/a.jpg''
           then Inr \<lparr>status_code = 200, content_type_header = Some ''image/jpeg'',
                      resp_text = [], body_chunks = [''JFIF'', ''abc''], body_error = None\<rparr>
           else if url = ''http://i/s-l1600/b.jpg''
           then Inr \<lparr>status_code = 200, content_type_header = Some ''text/html'',
                      resp_text = ''blocked'', body_chunks = [''blocked''], body_error = None\<rparr>
           else Inl RequestException),
      parse_html =
        (\<lambda>text. if text = ''<html>swappa</html>'' then Inr ex_swappa_soup else Inr ex_soup),
      unix_time = 1700000000,
      urlparse =
        (\<lambda>url. if url = ''http://[::1'' then Inl ValueError
               else if startswith url ''https://www.ebay.com/'' then Inr (''https'', ''www.ebay.com'')
               else if startswith url ''https://swappa.com/'' then Inr (''https'', ''swappa.com'')
               else if startswith url ''https://example.org/'' then Inr (''https'', ''example.org'')
               else if startswith url ''http://i/'' then Inr (''http'', ''i'')
               else Inr ([], [])),
      urljoin =
        (\<lambda>base url. if startswith url ''http://'' \<or> startswith url ''https://'' then Inr url
                    else if base = ''://'' then Inr url
                    else Inr (base @ url)),
      home = ''/home/u'',
      makedirs_error = (\<lambda>path. None),
      open_error = (\<lambda>path. None),
      remove_error = (\<lambda>path. None),
      image_open = (\<lambda>data. Inr data),
      jpeg_encode = (\<lambda>img. Inr (''JPEG'' @ img))\<rparr>"

text \<open>The same, but no directory can be made.\<close>

definition ex_env_readonly :: env where
  "ex_env_readonly = ex_env\<lparr>makedirs_error := (\<lambda>path. Some OSError)\<rparr>"

text \<open>
  The start of a first run, with an empty disk; a disk with the folder of the eBay
  listing, as \<open>create_folder\<close> leaves it; and that disk with the first image stored.
\<close>

definition ex_world :: world where
  "ex_world =
     \<lparr>successful_listings = 0, failed_listings = 0, successful_images = 0, failed_images = 0,
      files = Map.empty, dirs = {}, requests = [], calls = []\<rparr>"

definition ex_world_folder :: world where
  "ex_world_folder =
     ex_world\<lparr>dirs := {''/'', ''/home'', ''/home/u'', ''/home/u/listing_images'',
                       ''/home/u/listing_images/Red_Lamp''}\<rparr>"

definition ex_world_rerun :: world where
  "ex_world_rerun =
     ex_world_folder
       \<lparr>files := [''/home/u/listing_images/Red_Lamp/Red_Lamp_1.jpg'' \<mapsto> ''JFIFabc'']\<rparr>"

chapter \<open>Properties\<close>

section \<open>Properties of file names\<close>

lemma replace_single:
  "replace s [old] [new] = map (\<lambda>c. if c = old then new else c) s"
proof (induction s)
  case Nil
  show ?case by (subst replace.simps) simp
next
  case (Cons c cs)
  have "replace (c # cs) [old] [new]
          = (if c = old then new # replace cs [old] [new] else c # replace cs [old] [new])"
    by (subst replace.simps) simp
  with Cons show ?case by simp
qed

lemma valid_chars_split: "set valid_chars = insert (CHR '' '') (set filename_chars)"
  by (auto simp: valid_chars_def filename_chars_def)

lemma underscore_filename_char: "CHR ''_'' \<in> set filename_chars"
  by (simp add: filename_chars_def)

lemma dot_filename_char: "CHR ''.'' \<in> set filename_chars"
  by (simp add: filename_chars_def)

lemma space_not_filename_char: "CHR '' '' \<notin> set filename_chars"
  by (simp add: filename_chars_def ascii_letters_def ascii_lowercase_def
      ascii_uppercase_def digits_def)

lemma set_spaces_replaced:
  "set (replace (filter (\<lambda>c. c \<in> set valid_chars) name) '' '' ''_'')
     \<subseteq> set filename_chars"
  using underscore_filename_char
  by (auto simp: replace_single valid_chars_split)

lemma length_spaces_replaced:
  "length (replace s '' '' ''_'') = length s"
  by (simp add: replace_single)

text \<open>
  C3 (as amended). The result of \<open>sanitize_filename\<close> has only characters of
  \<open>[A-Za-z0-9_.()-]\<close> and at most 100 of them, and it ends with the marker \<open>...\<close>
  whenever more than 100 characters of the input are valid characters, that is, whenever
  the string left after the invalid characters are removed is longer than 100.
\<close>

theorem sanitize_filename_charset_length_marker:
  "set (sanitize_filename name) \<subseteq> set filename_chars
   \<and> length (sanitize_filename name) \<le> 100
   \<and> (100 < length (filter (\<lambda>c. c \<in> set valid_chars) name)
        \<longrightarrow> suffix ''...'' (sanitize_filename name))"
proof -
  let ?s = "replace (filter (\<lambda>c. c \<in> set valid_chars) name) '' '' ''_''"
  have chars: "set ?s \<subseteq> set filename_chars"
    by (rule set_spaces_replaced)
  have len: "length ?s = length (filter (\<lambda>c. c \<in> set valid_chars) name)"
    by (rule length_spaces_replaced)
  show ?thesis
  proof (cases "100 < length ?s")
    case True
    then have eq: "sanitize_filename name = take 97 ?s @ ''...''"
      by (simp add: sanitize_filename_def Let_def)
    have "set (take 97 ?s) \<subseteq> set filename_chars"
      using chars set_take_subset by fastforce
    then have "set (sanitize_filename name) \<subseteq> set filename_chars"
      using dot_filename_char by (simp add: eq)
    moreover have "length (sanitize_filename name) \<le> 100"
      using True by (simp add: eq)
    moreover have "suffix ''...'' (sanitize_filename name)"
      unfolding eq by (rule suffix_appendI) simp
    ultimately show ?thesis by simp
  next
    case False
    then have eq: "sanitize_filename name = ?s"
      by (simp add: sanitize_filename_def Let_def)
    show ?thesis
      using False chars len by (simp add: eq)
  qed
qed

theorem sanitize_filename_charset_length_marker_witness:
  "100 < length (filter (\<lambda>c. c \<in> set valid_chars) (replicate 101 (CHR ''a'')))
   \<and> set (sanitize_filename (replicate 101 (CHR ''a''))) \<subseteq> set filename_chars
   \<and> length (sanitize_filename (replicate 101 (CHR ''a''))) \<le> 100
   \<and> suffix ''...'' (sanitize_filename (replicate 101 (CHR ''a'')))"
proof -
  have h: "100 < length (filter (\<lambda>c. c \<in> set valid_chars) (replicate 101 (CHR ''a'')))"
    by (simp add: valid_chars_def ascii_letters_def ascii_lowercase_def)
  show ?thesis
    using h sanitize_filename_charset_length_marker [of "replicate 101 (CHR ''a'')"]
    by blast
qed

text \<open>
  C3 as stated fails: an input of 101 characters, one of them invalid, is longer than 100
  characters, and its result is the 100 valid characters with no marker.
\<close>

theorem sanitize_filename_marker_counterexample:
  "100 < length (replicate 100 (CHR ''a'') @ ''!'')
   \<and> sanitize_filename (replicate 100 (CHR ''a'') @ ''!'') = replicate 100 (CHR ''a'')
   \<and> \<not> suffix ''...'' (sanitize_filename (replicate 100 (CHR ''a'') @ ''!''))"
proof -
  have v: "CHR ''a'' \<in> set valid_chars" "CHR ''!'' \<notin> set valid_chars"
    by (simp_all add: valid_chars_def ascii_letters_def ascii_lowercase_def
        ascii_uppercase_def digits_def)
  have eq: "sanitize_filename (replicate 100 (CHR ''a'') @ ''!'') = replicate 100 (CHR ''a'')"
    using v by (simp add: sanitize_filename_def Let_def replace_single)
  have "\<not> suffix ''...'' (replicate 100 (CHR ''a''))"
    by (auto simp: suffix_def dest!: arg_cong [where f = set])
  then show ?thesis
    by (simp add: eq)
qed

section \<open>Properties of the normalisation of image URLs\<close>

lemma is_digit_simps [simp]:
  "\<not> is_digit (CHR ''s'')" "\<not> is_digit (CHR ''-'')" "\<not> is_digit (CHR ''l'')"
  "\<not> is_digit (CHR ''?'')" "\<not> is_digit newline"
  "is_digit (CHR ''1'')" "is_digit (CHR ''6'')" "is_digit (CHR ''0'')"
  by (simp_all add: is_digit_def digits_def newline_def)

lemma match_size_token_Some_iff:
  "match_size_token s = Some rest \<longleftrightarrow>
     (\<exists>d ds. s = ''s-l'' @ d # ds \<and> is_digit d \<and> rest = dropWhile is_digit ds)"
proof
  assume "match_size_token s = Some rest"
  then have a: "startswith s ''s-l''" and b: "takeWhile is_digit (drop 3 s) \<noteq> []"
    and r: "rest = dropWhile is_digit (drop 3 s)"
    by (auto simp: match_size_token_def split: if_splits)
  from a obtain t where s: "s = ''s-l'' @ t"
    by (cases s; cases "tl s"; cases "tl (tl s)") auto
  with b obtain d ds where t: "t = d # ds" and d: "is_digit d"
    by (cases t) (auto split: if_splits)
  show "\<exists>d ds. s = ''s-l'' @ d # ds \<and> is_digit d \<and> rest = dropWhile is_digit ds"
    using s t d r by simp
next
  assume "\<exists>d ds. s = ''s-l'' @ d # ds \<and> is_digit d \<and> rest = dropWhile is_digit ds"
  then show "match_size_token s = Some rest"
    by (auto simp: match_size_token_def)
qed

lemma match_size_token_None_iff:
  "match_size_token s = None \<longleftrightarrow> \<not> (\<exists>d ds. s = ''s-l'' @ d # ds \<and> is_digit d)"
proof (cases "match_size_token s")
  case None
  then have "\<And>rest. match_size_token s \<noteq> Some rest" by simp
  then have "\<not> (\<exists>d ds. s = ''s-l'' @ d # ds \<and> is_digit d)"
    unfolding match_size_token_Some_iff by blast
  with None show ?thesis by simp
next
  case (Some rest)
  then have "\<exists>d ds. s = ''s-l'' @ d # ds \<and> is_digit d"
    unfolding match_size_token_Some_iff by blast
  with Some show ?thesis by simp
qed

lemma sub_size_token_match:
  "is_digit d \<Longrightarrow>
   sub_size_token (''s-l'' @ d # ds) = ''s-l1600'' @ sub_size_token (dropWhile is_digit ds)"
proof -
  assume d: "is_digit d"
  have "match_size_token (''s-l'' @ d # ds) = Some (dropWhile is_digit ds)"
    using d by (simp add: match_size_token_Some_iff)
  then show ?thesis by (simp add: sub_size_token.simps(2))
qed

lemma sub_size_token_match_Cons:
  "is_digit d \<Longrightarrow>
   sub_size_token (CHR ''s'' # CHR ''-'' # CHR ''l'' # d # ds)
     = ''s-l1600'' @ sub_size_token (dropWhile is_digit ds)"
  using sub_size_token_match [of d ds] by simp

lemma takeWhile_append_stop:
  "\<not> P y \<Longrightarrow> takeWhile P (xs @ y # ys) = takeWhile P xs"
  by (induction xs) auto

lemma sub_size_token_nomatch:
  "match_size_token (c # cs) = None \<Longrightarrow> sub_size_token (c # cs) = c # sub_size_token cs"
  by (simp add: sub_size_token.simps(2))

lemma sub_size_token_not_s:
  "c \<noteq> CHR ''s'' \<Longrightarrow> sub_size_token (c # cs) = c # sub_size_token cs"
  by (rule sub_size_token_nomatch) (auto simp: match_size_token_None_iff)

lemma sub_size_token_hd: "\<exists>t. sub_size_token (c # cs) = c # t"
proof (cases "match_size_token (c # cs)")
  case None
  then show ?thesis by (simp add: sub_size_token_nomatch)
next
  case (Some rest)
  then obtain d ds where "c # cs = ''s-l'' @ d # ds" "is_digit d"
    unfolding match_size_token_Some_iff by blast
  then show ?thesis
    using sub_size_token_match [of d ds] by simp
qed

lemma sub_size_token_eq_ConsD:
  assumes "sub_size_token s = x # t"
  shows "\<exists>cs. s = x # cs"
proof (cases s)
  case Nil
  with assms show ?thesis by simp
next
  case (Cons c cs)
  with assms sub_size_token_hd [of c cs] show ?thesis by auto
qed

lemma sub_size_token_eq_Cons_not_s:
  "sub_size_token s = x # t \<Longrightarrow> x \<noteq> CHR ''s'' \<Longrightarrow> \<exists>cs. s = x # cs \<and> t = sub_size_token cs"
  using sub_size_token_eq_ConsD [of s x t] by (auto simp: sub_size_token_not_s)

lemma match_size_token_sub_None:
  assumes "match_size_token (c # cs) = None"
  shows "match_size_token (c # sub_size_token cs) = None"
proof (rule ccontr)
  assume "match_size_token (c # sub_size_token cs) \<noteq> None"
  then obtain d ds where e: "c # sub_size_token cs = ''s-l'' @ d # ds" and d: "is_digit d"
    by (auto simp: match_size_token_None_iff)
  from e have c: "c = CHR ''s''" and 1: "sub_size_token cs = CHR ''-'' # CHR ''l'' # d # ds"
    by simp_all
  from 1 obtain cs1 where cs: "cs = CHR ''-'' # cs1" and 2: "sub_size_token cs1 = CHR ''l'' # d # ds"
    using sub_size_token_eq_Cons_not_s [of cs "CHR ''-''"] by auto
  from 2 obtain cs2 where cs1: "cs1 = CHR ''l'' # cs2" and 3: "sub_size_token cs2 = d # ds"
    using sub_size_token_eq_Cons_not_s [of cs1 "CHR ''l''"] by auto
  from 3 obtain cs3 where cs2: "cs2 = d # cs3"
    using sub_size_token_eq_ConsD [of cs2 d ds] by auto
  have "c # cs = ''s-l'' @ d # cs3"
    by (simp add: c cs cs1 cs2)
  with d assms show False
    by (auto simp: match_size_token_None_iff)
qed

lemma dropWhile_digit_sub_size_token:
  assumes "s = [] \<or> \<not> is_digit (hd s)"
  shows "dropWhile is_digit (sub_size_token s) = sub_size_token s"
proof (cases s)
  case Nil
  then show ?thesis by simp
next
  case (Cons c cs)
  with assms have "\<not> is_digit c" by simp
  with Cons sub_size_token_hd [of c cs] show ?thesis by auto
qed

lemma dropWhile_stops: "dropWhile P xs = [] \<or> \<not> P (hd (dropWhile P xs))"
  by (metis hd_dropWhile)

lemma sub_size_token_idem: "sub_size_token (sub_size_token s) = sub_size_token s"
proof (induction s rule: sub_size_token.induct)
  case 1
  show ?case by simp
next
  case (2 c cs)
  show ?case
  proof (cases "match_size_token (c # cs)")
    case None
    then have "match_size_token (c # sub_size_token cs) = None"
      by (rule match_size_token_sub_None)
    with None 2 show ?thesis by (simp add: sub_size_token_nomatch)
  next
    case (Some rest)
    then obtain ds where rest: "rest = dropWhile is_digit ds"
      by (auto simp: match_size_token_Some_iff)
    have stop: "dropWhile is_digit (sub_size_token rest) = sub_size_token rest"
      unfolding rest by (rule dropWhile_digit_sub_size_token) (rule dropWhile_stops)
    have "sub_size_token (''s-l1600'' @ sub_size_token rest)
            = ''s-l1600'' @ sub_size_token (sub_size_token rest)"
      using sub_size_token_match [of "CHR ''1''" "''600'' @ sub_size_token rest"]
      by (simp add: stop)
    with Some 2 show ?thesis by (simp add: sub_size_token.simps(2))
  qed
qed


lemma set_sub_size_token: "set (sub_size_token s) \<subseteq> set s \<union> set ''s-l1600''"
proof (induction s rule: sub_size_token.induct)
  case 1
  show ?case by simp
next
  case (2 c cs)
  show ?case
  proof (cases "match_size_token (c # cs)")
    case None
    with 2 show ?thesis by (auto simp: sub_size_token_nomatch)
  next
    case (Some rest)
    then obtain d ds where s: "c # cs = ''s-l'' @ d # ds" and rest: "rest = dropWhile is_digit ds"
      unfolding match_size_token_Some_iff by blast
    have "set rest \<subseteq> set (c # cs)"
      unfolding rest s using set_dropWhileD by fastforce
    with Some 2 show ?thesis
      by (auto simp: sub_size_token.simps(2))
  qed
qed

lemma newline_sub_size_token: "newline \<notin> set s \<Longrightarrow> newline \<notin> set (sub_size_token s)"
  using set_sub_size_token [of s] by (auto simp: newline_def)

lemma sub_query_no_newline:
  "newline \<notin> set s \<Longrightarrow> sub_query s = takeWhile (\<lambda>c. c \<noteq> CHR ''?'') s"
proof (induction s)
  case Nil
  show ?case by simp
next
  case (Cons c cs)
  have d: "dropWhile (\<lambda>x. x \<noteq> newline) cs = []"
    using Cons.prems by auto
  show ?case
    using Cons by (simp add: sub_query.simps(2) match_query_def d)
qed

lemma dropWhile_takeWhile_commute:
  "(\<And>x. P x \<Longrightarrow> Q x) \<Longrightarrow> dropWhile P (takeWhile Q xs) = takeWhile Q (dropWhile P xs)"
  by (induction xs) auto

lemma takeWhile_eq_ConsD:
  "takeWhile P xs = a # b \<Longrightarrow> \<exists>ys. xs = a # ys \<and> takeWhile P ys = b"
  by (cases xs) (auto split: if_splits)

lemma match_size_token_takeWhile_None:
  assumes "match_size_token (c # cs) = None"
  shows "match_size_token (c # takeWhile P cs) = None"
proof (rule ccontr)
  assume "match_size_token (c # takeWhile P cs) \<noteq> None"
  then obtain d ds where e: "c # takeWhile P cs = ''s-l'' @ d # ds" and d: "is_digit d"
    by (auto simp: match_size_token_None_iff)
  from e have c: "c = CHR ''s''" and 1: "takeWhile P cs = CHR ''-'' # CHR ''l'' # d # ds"
    by simp_all
  from takeWhile_eq_ConsD [OF 1]
  obtain cs1 where cs: "cs = CHR ''-'' # cs1" and 2: "takeWhile P cs1 = CHR ''l'' # d # ds"
    by (elim exE conjE)
  from takeWhile_eq_ConsD [OF 2]
  obtain cs2 where cs1: "cs1 = CHR ''l'' # cs2" and 3: "takeWhile P cs2 = d # ds"
    by (elim exE conjE)
  from takeWhile_eq_ConsD [OF 3]
  obtain cs3 where cs2: "cs2 = d # cs3"
    by (elim exE conjE)
  have "c # cs = ''s-l'' @ d # cs3"
    by (simp add: c cs cs1 cs2)
  with d assms show False
    by (auto simp: match_size_token_None_iff)
qed

lemma sub_size_token_takeWhile:
  "sub_size_token (takeWhile (\<lambda>c. c \<noteq> CHR ''?'') s)
     = takeWhile (\<lambda>c. c \<noteq> CHR ''?'') (sub_size_token s)"
proof (induction s rule: sub_size_token.induct)
  case 1
  show ?case by simp
next
  case (2 c cs)
  let ?tw = "takeWhile (\<lambda>c. c \<noteq> CHR ''?'')"
  show ?case
  proof (cases "match_size_token (c # cs)")
    case None
    show ?thesis
    proof (cases "c = CHR ''?''")
      case True
      then show ?thesis by (simp add: sub_size_token_not_s)
    next
      case False
      have "match_size_token (c # ?tw cs) = None"
        using None by (rule match_size_token_takeWhile_None)
      with None False 2 show ?thesis
        by (simp add: sub_size_token_nomatch)
    qed
  next
    case (Some rest)
    then obtain d ds where s: "c # cs = ''s-l'' @ d # ds" and d: "is_digit d"
      and rest: "rest = dropWhile is_digit ds"
      unfolding match_size_token_Some_iff by blast
    have dq: "d \<noteq> CHR ''?''" using d by auto
    have comm: "dropWhile is_digit (?tw ds) = ?tw (dropWhile is_digit ds)"
      by (rule dropWhile_takeWhile_commute) auto
    have "sub_size_token (?tw (c # cs)) = sub_size_token (''s-l'' @ d # ?tw ds)"
      unfolding s using dq by simp
    also have "\<dots> = ''s-l1600'' @ sub_size_token (?tw rest)"
      using d by (simp only: sub_size_token_match comm rest)
    also have "\<dots> = ''s-l1600'' @ ?tw (sub_size_token rest)"
      using Some 2 by simp
    also have "\<dots> = ?tw (sub_size_token (c # cs))"
      using d unfolding s rest by (simp add: sub_size_token_match_Cons)
    finally show ?thesis .
  qed
qed

lemma normalize_image_url_no_newline:
  "newline \<notin> set u \<Longrightarrow>
   normalize_image_url u = takeWhile (\<lambda>c. c \<noteq> CHR ''?'') (sub_size_token u)"
  by (simp add: normalize_image_url_def newline_sub_size_token sub_query_no_newline)

lemma normalize_idem_no_newline:
  assumes "newline \<notin> set u"
  shows "normalize_image_url (normalize_image_url u) = normalize_image_url u"
proof -
  let ?tw = "takeWhile (\<lambda>c. c \<noteq> CHR ''?'')"
  have n: "normalize_image_url u = ?tw (sub_size_token u)"
    using assms by (rule normalize_image_url_no_newline)
  have "newline \<notin> set (?tw (sub_size_token u))"
    using newline_sub_size_token [OF assms] by (auto dest: set_takeWhileD)
  then have "normalize_image_url (?tw (sub_size_token u))
               = ?tw (sub_size_token (?tw (sub_size_token u)))"
    by (rule normalize_image_url_no_newline)
  also have "\<dots> = ?tw (?tw (sub_size_token (sub_size_token u)))"
    by (simp only: sub_size_token_takeWhile)
  also have "\<dots> = ?tw (sub_size_token u)"
    by (simp add: sub_size_token_idem)
  finally show ?thesis by (simp add: n)
qed

lemma match_size_token_append_None:
  assumes "match_size_token (a # as) = None" and "breaks_token c"
  shows "match_size_token ((a # as) @ c # t) = None"
proof (rule ccontr)
  assume "match_size_token ((a # as) @ c # t) \<noteq> None"
  then obtain d ds where e: "(a # as) @ c # t = ''s-l'' @ d # ds" and d: "is_digit d"
    by (auto simp: match_size_token_None_iff)
  have "\<exists>ds'. a # as = ''s-l'' @ d # ds'"
  proof (cases as)
    case Nil
    with e assms(2) show ?thesis by (simp add: breaks_token_def)
  next
    case (Cons b bs)
    note as = Cons
    show ?thesis
    proof (cases bs)
      case Nil
      with e as assms(2) show ?thesis by (simp add: breaks_token_def)
    next
      case (Cons b' bs')
      note bs = Cons
      show ?thesis
      proof (cases bs')
        case Nil
        with e as bs assms(2) d show ?thesis by (auto simp: breaks_token_def)
      next
        case (Cons b'' bs'')
        with e as bs show ?thesis by simp
      qed
    qed
  qed
  with d assms(1) show False
    by (auto simp: match_size_token_None_iff)
qed

lemma sub_size_token_append:
  "breaks_token c \<Longrightarrow>
   sub_size_token (p @ c # t) = sub_size_token p @ sub_size_token (c # t)"
proof (induction p rule: sub_size_token.induct)
  case 1
  show ?case by simp
next
  case (2 a as)
  show ?case
  proof (cases "match_size_token (a # as)")
    case None
    then have "match_size_token ((a # as) @ c # t) = None"
      using 2(3) by (rule match_size_token_append_None)
    then have "sub_size_token ((a # as) @ c # t) = a # sub_size_token (as @ c # t)"
      by (simp add: sub_size_token.simps(2))
    with None 2 show ?thesis
      by (simp add: sub_size_token_nomatch)
  next
    case (Some rest)
    then obtain d ds where s: "a # as = ''s-l'' @ d # ds" and d: "is_digit d"
      and rest: "rest = dropWhile is_digit ds"
      unfolding match_size_token_Some_iff by blast
    have nd: "\<not> is_digit c" using 2(3) by (simp add: breaks_token_def)
    have dw: "dropWhile is_digit (ds @ c # t) = rest @ c # t"
      unfolding rest using nd by (simp add: dropWhile_append)
    have "sub_size_token ((a # as) @ c # t) = sub_size_token (''s-l'' @ d # (ds @ c # t))"
      unfolding s by simp
    also have "\<dots> = ''s-l1600'' @ sub_size_token (rest @ c # t)"
      using d by (simp only: sub_size_token_match dw)
    also have "\<dots> = ''s-l1600'' @ sub_size_token rest @ sub_size_token (c # t)"
      using Some 2 by simp
    also have "\<dots> = sub_size_token (a # as) @ sub_size_token (c # t)"
      using d unfolding s rest by (simp add: sub_size_token_match_Cons)
    finally show ?thesis .
  qed
qed

lemma sub_size_token_digits:
  assumes "d \<noteq> []" and "list_all is_digit d"
  shows "sub_size_token (''s-l'' @ d @ r) = ''s-l1600'' @ sub_size_token (dropWhile is_digit r)"
proof -
  from assms obtain x xs where d: "d = x # xs" and x: "is_digit x" and xs: "list_all is_digit xs"
    by (cases d) auto
  have "dropWhile is_digit (xs @ r) = dropWhile is_digit r"
    using xs by (simp add: dropWhile_append list_all_iff)
  then show ?thesis
    using sub_size_token_match [OF x, of "xs @ r"] by (simp add: d)
qed

lemma normalize_size_token:
  assumes "d1 \<noteq> []" "list_all is_digit d1" "d2 \<noteq> []" "list_all is_digit d2"
  shows "normalize_image_url (p @ ''s-l'' @ d1 @ r) = normalize_image_url (p @ ''s-l'' @ d2 @ r)"
proof -
  have b: "breaks_token (CHR ''s'')" by (simp add: breaks_token_def)
  have "\<And>d. d \<noteq> [] \<Longrightarrow> list_all is_digit d \<Longrightarrow>
          sub_size_token (p @ ''s-l'' @ d @ r)
            = sub_size_token p @ ''s-l1600'' @ sub_size_token (dropWhile is_digit r)"
    using sub_size_token_append [OF b, of p] sub_size_token_digits [of _ r] by simp
  with assms show ?thesis
    by (simp add: normalize_image_url_def)
qed

lemma normalize_query:
  assumes "newline \<notin> set b" "newline \<notin> set q"
  shows "normalize_image_url (b @ ''?'' @ q) = normalize_image_url b"
proof -
  let ?tw = "takeWhile (\<lambda>c. c \<noteq> CHR ''?'')"
  have bq: "breaks_token (CHR ''?'')" by (simp add: breaks_token_def)
  have s: "sub_size_token (b @ ''?'' @ q) = sub_size_token b @ CHR ''?'' # sub_size_token q"
    using sub_size_token_append [OF bq, of b q] by (simp add: sub_size_token_not_s)
  have "newline \<notin> set (b @ ''?'' @ q)"
    using assms by (simp add: newline_def)
  then have "normalize_image_url (b @ ''?'' @ q) = ?tw (sub_size_token (b @ ''?'' @ q))"
    by (rule normalize_image_url_no_newline)
  also have "\<dots> = ?tw (sub_size_token b)"
    unfolding s by (simp add: takeWhile_append_stop)
  also have "\<dots> = normalize_image_url b"
    using assms(1) by (simp add: normalize_image_url_no_newline)
  finally show ?thesis .
qed

section \<open>Properties of the deduplication\<close>

lemma dedup_loop_keep_first:
  "map snd (dedup_loop d us) = map snd d @ keep_first (fst ` set d) us"
  by (induction us arbitrary: d) (auto simp: Let_def map_of_eq_None_iff)

lemma dedup_image_urls_keep_first: "dedup_image_urls us = keep_first {} us"
  by (simp add: dedup_image_urls_def dedup_loop_keep_first)

lemma keep_first_keys:
  "normalize_image_url ` set (keep_first seen us) = normalize_image_url ` set us - seen"
  by (induction us arbitrary: seen) auto

lemma keep_first_distinct: "distinct (map normalize_image_url (keep_first seen us))"
proof (induction us arbitrary: seen)
  case Nil
  show ?case by simp
next
  case (Cons u us)
  have "normalize_image_url u
          \<notin> normalize_image_url ` set (keep_first (insert (normalize_image_url u) seen) us)"
    unfolding keep_first_keys by simp
  with Cons show ?case by simp
qed

lemma keep_first_subseq: "subseq (keep_first seen us) us"
  by (induction us arbitrary: seen) auto

lemma keep_first_find:
  "r \<in> set (keep_first seen us) \<Longrightarrow>
   find (\<lambda>u. normalize_image_url u = normalize_image_url r) us = Some r"
proof (induction us arbitrary: seen)
  case Nil
  then show ?case by simp
next
  case (Cons u us)
  show ?case
  proof (cases "normalize_image_url u = normalize_image_url r")
    case True
    have "r = u"
    proof (rule ccontr)
      assume "r \<noteq> u"
      with Cons.prems have "r \<in> set (keep_first (insert (normalize_image_url u) seen) us)
                            \<or> (normalize_image_url u \<in> seen \<and> r \<in> set (keep_first seen us))"
        by (auto split: if_splits)
      then have "normalize_image_url r \<noteq> normalize_image_url u"
        using keep_first_keys by (metis DiffD2 imageI insertI1)
      with True show False by simp
    qed
    then show ?thesis by simp
  next
    case False
    with Cons.prems have "r \<in> set (keep_first (insert (normalize_image_url u) seen) us)
                            \<or> r \<in> set (keep_first seen us)"
      by (auto split: if_splits)
    with Cons.IH False show ?thesis by auto
  qed
qed

lemma dedup_first_seen:
  "map (\<lambda>r. find (\<lambda>u. normalize_image_url u = normalize_image_url r) us) (dedup_image_urls us)
     = map Some (dedup_image_urls us)"
  by (simp add: dedup_image_urls_keep_first keep_first_find)

text \<open>
  C4 (as amended). Two image URLs that differ only in the digits of an \<open>s-l<digits>\<close>
  token have the same normalised URL. Two image URLs without a line feed that differ only
  in a trailing query string, or of which one has a trailing query string and the other
  none, have the same normalised URL. For every candidate list, the deduplication keeps
  exactly one entry for each normalised URL of the list, the first raw URL of the list
  that has it, and keeps the entries in the order of the list.
\<close>

theorem normalize_dedup:
  "(d1 \<noteq> [] \<and> list_all is_digit d1 \<and> d2 \<noteq> [] \<and> list_all is_digit d2
      \<longrightarrow> normalize_image_url (p @ ''s-l'' @ d1 @ r) = normalize_image_url (p @ ''s-l'' @ d2 @ r))
   \<and> (newline \<notin> set b \<and> newline \<notin> set q1 \<and> newline \<notin> set q2
      \<longrightarrow> normalize_image_url (b @ ''?'' @ q1) = normalize_image_url (b @ ''?'' @ q2)
          \<and> normalize_image_url (b @ ''?'' @ q1) = normalize_image_url b)
   \<and> distinct (map normalize_image_url (dedup_image_urls us))
   \<and> normalize_image_url ` set (dedup_image_urls us) = normalize_image_url ` set us
   \<and> subseq (dedup_image_urls us) us
   \<and> map (\<lambda>r. find (\<lambda>u. normalize_image_url u = normalize_image_url r) us)
         (dedup_image_urls us) = map Some (dedup_image_urls us)"
proof (intro conjI impI)
  assume "d1 \<noteq> [] \<and> list_all is_digit d1 \<and> d2 \<noteq> [] \<and> list_all is_digit d2"
  then show "normalize_image_url (p @ ''s-l'' @ d1 @ r) = normalize_image_url (p @ ''s-l'' @ d2 @ r)"
    using normalize_size_token [of d1 d2 p r] by blast
next
  assume n: "newline \<notin> set b \<and> newline \<notin> set q1 \<and> newline \<notin> set q2"
  then show "normalize_image_url (b @ ''?'' @ q1) = normalize_image_url (b @ ''?'' @ q2)"
    using normalize_query [of b q1] normalize_query [of b q2] by simp
  from n show "normalize_image_url (b @ ''?'' @ q1) = normalize_image_url b"
    using normalize_query [of b q1] by simp
next
  show "distinct (map normalize_image_url (dedup_image_urls us))"
    by (simp only: dedup_image_urls_keep_first keep_first_distinct)
  show "normalize_image_url ` set (dedup_image_urls us) = normalize_image_url ` set us"
    by (simp add: dedup_image_urls_keep_first keep_first_keys)
  show "subseq (dedup_image_urls us) us"
    by (simp only: dedup_image_urls_keep_first keep_first_subseq)
  show "map (\<lambda>r. find (\<lambda>u. normalize_image_url u = normalize_image_url r) us)
         (dedup_image_urls us) = map Some (dedup_image_urls us)"
    by (rule dedup_first_seen)
qed

theorem normalize_dedup_witness:
  "(''64'' \<noteq> [] \<and> list_all is_digit ''64'' \<and> ''300'' \<noteq> [] \<and> list_all is_digit ''300'')
   \<and> normalize_image_url (''http://i/'' @ ''s-l'' @ ''64'' @ ''/a.jpg?x=1'')
       = normalize_image_url (''http://i/'' @ ''s-l'' @ ''300'' @ ''/a.jpg?x=1'')
   \<and> (newline \<notin> set ''http://i/a.jpg'' \<and> newline \<notin> set ''x=1'' \<and> newline \<notin> set ''y'')
   \<and> normalize_image_url (''http://i/a.jpg'' @ ''?'' @ ''x=1'')
       = normalize_image_url (''http://i/a.jpg'' @ ''?'' @ ''y'')
   \<and> normalize_image_url (''http://i/a.jpg'' @ ''?'' @ ''x=1'') = normalize_image_url ''http://i/a.jpg''
   \<and> dedup_image_urls [''a/s-l64/x.jpg?z'', ''b'', ''a/s-l300/x.jpg'', ''b?q'']
       = [''a/s-l64/x.jpg?z'', ''b'']
   \<and> distinct (map normalize_image_url
        (dedup_image_urls [''a/s-l64/x.jpg?z'', ''b'', ''a/s-l300/x.jpg'', ''b?q'']))
   \<and> subseq (dedup_image_urls [''a/s-l64/x.jpg?z'', ''b'', ''a/s-l300/x.jpg'', ''b?q''])
        [''a/s-l64/x.jpg?z'', ''b'', ''a/s-l300/x.jpg'', ''b?q'']"
proof -
  have h1: "''64'' \<noteq> [] \<and> list_all is_digit ''64'' \<and> ''300'' \<noteq> [] \<and> list_all is_digit ''300''"
    by (simp add: is_digit_def digits_def)
  have h2: "newline \<notin> set ''http://i/a.jpg'' \<and> newline \<notin> set ''x=1'' \<and> newline \<notin> set ''y''"
    by (simp add: newline_def)
  have ev: "dedup_image_urls [''a/s-l64/x.jpg?z'', ''b'', ''a/s-l300/x.jpg'', ''b?q'']
       = [''a/s-l64/x.jpg?z'', ''b'']"
    by code_simp
  note t = normalize_dedup [of "''64''" "''300''" "''http://i/''" "''/a.jpg?x=1''"
      "''http://i/a.jpg''" "''x=1''" "''y''"
      "[''a/s-l64/x.jpg?z'', ''b'', ''a/s-l300/x.jpg'', ''b?q'']"]
  from t h1 h2 ev show ?thesis
    by blast
qed

text \<open>
  C4 as stated fails for URLs with a line feed: \<open>.\<close> does not match it, so a query string
  with a line feed inside it is not removed, and two URLs that differ only in their query
  strings are normalised differently.
\<close>

theorem normalize_query_newline_counterexample:
  "normalize_image_url (''a?x'' @ [newline] @ ''y'') = ''a?x'' @ [newline] @ ''y''
   \<and> normalize_image_url ''a?z'' = ''a''
   \<and> normalize_image_url (''a?x'' @ [newline] @ ''y'') \<noteq> normalize_image_url ''a?z''"
  by code_simp

text \<open>
  C9 (as amended). \<open>normalize_image_url\<close> is idempotent on every string without a line
  feed.
\<close>

theorem normalize_image_url_idempotent:
  "newline \<notin> set u \<Longrightarrow>
   normalize_image_url (normalize_image_url u) = normalize_image_url u"
  by (rule normalize_idem_no_newline)

theorem normalize_image_url_idempotent_witness:
  "newline \<notin> set ''http://i/s-l64/a.jpg?x=1''
   \<and> normalize_image_url (normalize_image_url ''http://i/s-l64/a.jpg?x=1'')
       = normalize_image_url ''http://i/s-l64/a.jpg?x=1''"
proof -
  have h: "newline \<notin> set ''http://i/s-l64/a.jpg?x=1''"
    by (simp add: newline_def)
  from h normalize_image_url_idempotent [OF h] show ?thesis
    by blast
qed

text \<open>
  C9 as stated fails for a string with line feeds: the first normalisation removes the
  query string of the last line and so makes the line feed the last character, after
  which the pattern matches at the \<open>?\<close> of the line before.
\<close>

theorem normalize_image_url_not_idempotent_counterexample:
  "normalize_image_url (''a?b'' @ [newline] @ ''?d'') = ''a?b'' @ [newline]
   \<and> normalize_image_url (''a?b'' @ [newline]) = ''a'' @ [newline]
   \<and> normalize_image_url (normalize_image_url (''a?b'' @ [newline] @ ''?d''))
       \<noteq> normalize_image_url (''a?b'' @ [newline] @ ''?d'')"
  by code_simp

section \<open>Properties of the extraction\<close>

lemma ebay_image_urls_first_nonempty:
  "ebay_image_urls sp =
     first_nonempty [ebay_method1 sp [], ebay_method2 sp [], method_og_image sp [],
       method_content_area ''div#vi_main_img_fs'' sp []]"
  by (simp add: ebay_image_urls_def Let_def)

lemma swappa_image_urls_first_nonempty:
  "swappa_image_urls sp =
     first_nonempty [swappa_method1 sp [], swappa_method2 sp [], method_og_image sp [],
       method_content_area ''div.listing_content'' sp []]"
  by (simp add: swappa_image_urls_def Let_def)

lemma scrape_ebay_listing_result:
  "fetch_soup e w url = (Inr sp, w1) \<Longrightarrow>
   scrape_ebay_listing e w url
     = ((Some (extract_title e sp ''h1.x-item-title__mainTitle span'' ''eBay_Item_''),
         dedup_image_urls (ebay_image_urls sp)), w1)"
  by (simp add: scrape_ebay_listing_def scrape_ebay_listing_try_def Let_def)

lemma urljoin_all_Inr_iff:
  "urljoin_all e base_url image_urls = Inr joined
     \<longleftrightarrow> map (urljoin e base_url) image_urls = map Inr joined"
proof (induction image_urls arbitrary: joined)
  case Nil
  show ?case by auto
next
  case (Cons u us)
  show ?case
  proof (cases "urljoin e base_url u")
    case (Inl err)
    then show ?thesis by (cases joined) auto
  next
    case (Inr j)
    note j = Inr
    show ?thesis
    proof (cases "urljoin_all e base_url us")
      case (Inl err)
      with j Cons [of "tl joined"] show ?thesis by (cases joined) auto
    next
      case (Inr js)
      with j Cons [of js] Cons [of "tl joined"] show ?thesis by (cases joined) auto
    qed
  qed
qed

lemma scrape_swappa_listing_result:
  assumes "fetch_soup e w url = (Inr sp, w1)"
    and "urlparse e (if swappa_image_urls sp = [] then url else last (swappa_image_urls sp))
           = Inr (scheme, netloc)"
    and "map (urljoin e (scheme @ ''://'' @ netloc)) (dedup_image_urls (swappa_image_urls sp))
           = map Inr joined"
  shows "scrape_swappa_listing e w url
           = ((Some (extract_title e sp ''h1.listing_title'' ''Swappa_Item_''), joined), w1)"
proof -
  have "urljoin_all e (scheme @ ''://'' @ netloc) (dedup_image_urls (swappa_image_urls sp))
          = Inr joined"
    using assms(3) by (simp only: urljoin_all_Inr_iff)
  with assms(1,2) show ?thesis
    by (simp add: scrape_swappa_listing_def scrape_swappa_listing_try_def Let_def)
qed

text \<open>
  C5. For every parsed page, the candidates of either extractor are those of the first of
  its four methods, in their fixed order, that yields at least one URL, and of no other
  method: when the first method yields a URL, the candidates are its URLs alone. When
  the page is fetched and parsed, \<open>scrape_ebay_listing\<close> returns the title with these
  candidates, deduplicated; and \<open>scrape_swappa_listing\<close> returns the title with these
  candidates, deduplicated and each joined to the base URL, whenever \<open>urlparse\<close> and
  \<open>urljoin\<close> return. The base URL is made from \<open>url\<close> as the deduplication loop leaves
  it: the last candidate, or the listing's URL when there is no candidate.
\<close>

theorem first_strategy_only:
  "ebay_image_urls sp =
     first_nonempty [ebay_method1 sp [], ebay_method2 sp [], method_og_image sp [],
       method_content_area ''div#vi_main_img_fs'' sp []]
   \<and> swappa_image_urls sp =
     first_nonempty [swappa_method1 sp [], swappa_method2 sp [], method_og_image sp [],
       method_content_area ''div.listing_content'' sp []]
   \<and> (ebay_method1 sp [] \<noteq> [] \<longrightarrow> ebay_image_urls sp = ebay_method1 sp [])
   \<and> (swappa_method1 sp [] \<noteq> [] \<longrightarrow> swappa_image_urls sp = swappa_method1 sp [])
   \<and> (fetch_soup e w url = (Inr sp, w1) \<longrightarrow>
        scrape_ebay_listing e w url
          = ((Some (extract_title e sp ''h1.x-item-title__mainTitle span'' ''eBay_Item_''),
              dedup_image_urls
                (first_nonempty [ebay_method1 sp [], ebay_method2 sp [],
                   method_og_image sp [], method_content_area ''div#vi_main_img_fs'' sp []])),
             w1))
   \<and> (fetch_soup e w url = (Inr sp, w1)
        \<and> urlparse e
              (if first_nonempty [swappa_method1 sp [], swappa_method2 sp [],
                    method_og_image sp [], method_content_area ''div.listing_content'' sp []]
                  = []
               then url
               else last (first_nonempty [swappa_method1 sp [], swappa_method2 sp [],
                            method_og_image sp [],
                            method_content_area ''div.listing_content'' sp []]))
            = Inr (scheme, netloc)
        \<and> map (urljoin e (scheme @ ''://'' @ netloc))
              (dedup_image_urls
                 (first_nonempty [swappa_method1 sp [], swappa_method2 sp [],
                    method_og_image sp [], method_content_area ''div.listing_content'' sp []]))
            = map Inr joined
        \<longrightarrow> scrape_swappa_listing e w url
              = ((Some (extract_title e sp ''h1.listing_title'' ''Swappa_Item_''), joined), w1))"
proof -
  note eb = ebay_image_urls_first_nonempty [of sp]
  note sw = swappa_image_urls_first_nonempty [of sp]
  have 1: "ebay_method1 sp [] \<noteq> [] \<longrightarrow> ebay_image_urls sp = ebay_method1 sp []"
    by (simp add: eb)
  have 2: "swappa_method1 sp [] \<noteq> [] \<longrightarrow> swappa_image_urls sp = swappa_method1 sp []"
    by (simp add: sw)
  have 3: "fetch_soup e w url = (Inr sp, w1) \<longrightarrow>
        scrape_ebay_listing e w url
          = ((Some (extract_title e sp ''h1.x-item-title__mainTitle span'' ''eBay_Item_''),
              dedup_image_urls (ebay_image_urls sp)), w1)"
    using scrape_ebay_listing_result [of e w url sp w1] by blast
  have 4: "fetch_soup e w url = (Inr sp, w1)
        \<and> urlparse e (if swappa_image_urls sp = [] then url else last (swappa_image_urls sp))
            = Inr (scheme, netloc)
        \<and> map (urljoin e (scheme @ ''://'' @ netloc)) (dedup_image_urls (swappa_image_urls sp))
            = map Inr joined
        \<longrightarrow> scrape_swappa_listing e w url
              = ((Some (extract_title e sp ''h1.listing_title'' ''Swappa_Item_''), joined), w1)"
    using scrape_swappa_listing_result [of e w url sp w1 scheme netloc joined] by blast
  from eb sw 1 2 3 [unfolded eb] 4 [unfolded sw] show ?thesis
    by (intro conjI)
qed

theorem first_strategy_only_witness:
  "ebay_method1 ex_soup [] \<noteq> [] \<and> ebay_method2 ex_soup [] \<noteq> []
   \<and> method_og_image ex_soup [] \<noteq> []
   \<and> ebay_image_urls ex_soup = ebay_method1 ex_soup []
   \<and> fetch_soup ex_env ex_world ''https://www.ebay.com/itm/1''
       = (Inr ex_soup, ex_world\<lparr>requests := [''https://www.ebay.com/itm/1'']\<rparr>)
   \<and> scrape_ebay_listing ex_env ex_world ''https://www.ebay.com/itm/1''
       = ((Some ''Red Lamp'', [''http://i/s-l1600/a.jpg'', ''http://i/s-l1600/b.jpg'']),
          ex_world\<lparr>requests := [''https://www.ebay.com/itm/1'']\<rparr>)
   \<and> swappa_method1 ex_swappa_soup [] \<noteq> [] \<and> swappa_method2 ex_swappa_soup [] \<noteq> []
   \<and> method_og_image ex_swappa_soup [] \<noteq> []
   \<and> swappa_image_urls ex_swappa_soup = swappa_method1 ex_swappa_soup []
   \<and> fetch_soup ex_env ex_world ''https://swappa.com/listing/view/LAAA123''
       = (Inr ex_swappa_soup,
          ex_world\<lparr>requests := [''https://swappa.com/listing/view/LAAA123'']\<rparr>)
   \<and> urlparse ex_env ''/static/p2.jpg'' = Inr ([], [])
   \<and> map (urljoin ex_env ([] @ ''://'' @ [])) [''/static/p1.jpg'', ''/static/p2.jpg'']
       = map Inr [''/static/p1.jpg'', ''/static/p2.jpg'']
   \<and> scrape_swappa_listing ex_env ex_world ''https://swappa.com/listing/view/LAAA123''
       = ((Some ''Pixel 7 - Good'', [''/static/p1.jpg'', ''/static/p2.jpg'']),
          ex_world\<lparr>requests := [''https://swappa.com/listing/view/LAAA123'']\<rparr>)"
proof -
  let ?eu = "''https://www.ebay.com/itm/1''"
  let ?su = "''https://swappa.com/listing/view/LAAA123''"
  have e1: "ebay_method1 ex_soup [] \<noteq> []" and e2: "ebay_method2 ex_soup [] \<noteq> []"
    and e3: "method_og_image ex_soup [] \<noteq> []"
    by code_simp+
  have s1: "swappa_method1 ex_swappa_soup [] \<noteq> []"
    and s2: "swappa_method2 ex_swappa_soup [] \<noteq> []"
    and s3: "method_og_image ex_swappa_soup [] \<noteq> []"
    by code_simp+
  have ef: "fetch_soup ex_env ex_world ?eu = (Inr ex_soup, ex_world\<lparr>requests := [?eu]\<rparr>)"
    by (simp add: fetch_soup_def session_get_def ex_env_def ex_world_def raise_for_status_def)
  have sf: "fetch_soup ex_env ex_world ?su = (Inr ex_swappa_soup, ex_world\<lparr>requests := [?su]\<rparr>)"
    by (simp add: fetch_soup_def session_get_def ex_env_def ex_world_def raise_for_status_def)
  note a = first_strategy_only [of ex_soup ex_env ex_world ?eu "ex_world\<lparr>requests := [?eu]\<rparr>"]
  note b = first_strategy_only [of ex_swappa_soup ex_env ex_world ?su
      "ex_world\<lparr>requests := [?su]\<rparr>" "[]" "[]" "[''/static/p1.jpg'', ''/static/p2.jpg'']"]
  have et: "extract_title ex_env ex_soup ''h1.x-item-title__mainTitle span'' ''eBay_Item_''
              = ''Red Lamp''"
    by code_simp
  have ec: "dedup_image_urls
              (first_nonempty [ebay_method1 ex_soup [], ebay_method2 ex_soup [],
                 method_og_image ex_soup [],
                 method_content_area ''div#vi_main_img_fs'' ex_soup []])
              = [''http://i/s-l1600/a.jpg'', ''http://i/s-l1600/b.jpg'']"
    by code_simp
  have st: "extract_title ex_env ex_swappa_soup ''h1.listing_title'' ''Swappa_Item_''
              = ''Pixel 7 - Good''"
    by code_simp
  have sc: "first_nonempty [swappa_method1 ex_swappa_soup [], swappa_method2 ex_swappa_soup [],
                method_og_image ex_swappa_soup [],
                method_content_area ''div.listing_content'' ex_swappa_soup []]
              = [''/static/p1.jpg'', ''/static/p2.jpg'']"
    by code_simp
  have sd: "dedup_image_urls [''/static/p1.jpg'', ''/static/p2.jpg'']
              = [''/static/p1.jpg'', ''/static/p2.jpg'']"
    by code_simp
  have up: "urlparse ex_env ''/static/p2.jpg'' = Inr ([], [])"
    by (simp add: ex_env_def)
  have uj: "map (urljoin ex_env ([] @ ''://'' @ [])) [''/static/p1.jpg'', ''/static/p2.jpg'']
       = map Inr [''/static/p1.jpg'', ''/static/p2.jpg'']"
    by (simp add: ex_env_def)
  have 1: "ebay_image_urls ex_soup = ebay_method1 ex_soup []"
    using a e1 by blast
  have 2: "scrape_ebay_listing ex_env ex_world ?eu
       = ((Some ''Red Lamp'', [''http://i/s-l1600/a.jpg'', ''http://i/s-l1600/b.jpg'']),
          ex_world\<lparr>requests := [?eu]\<rparr>)"
    using a ef by (simp only: et ec)
  have 3: "swappa_image_urls ex_swappa_soup = swappa_method1 ex_swappa_soup []"
    using b s1 by blast
  have 4: "scrape_swappa_listing ex_env ex_world ?su
       = ((Some ''Pixel 7 - Good'', [''/static/p1.jpg'', ''/static/p2.jpg'']),
          ex_world\<lparr>requests := [?su]\<rparr>)"
    using b [unfolded sc sd st] sf up uj by simp
  from e1 e2 e3 s1 s2 s3 ef sf up uj 1 2 3 4 show ?thesis
    by (intro conjI)
qed

text \<open>
  C7. When the request for the listing page raises, or its status is an error status, or
  the parsing of the page raises, both extractors return \<open>(None, [])\<close>.
\<close>

theorem scrape_exception_caught:
  assumes "http_get e (length (requests w)) url = Inl err
           \<or> (\<exists>response. http_get e (length (requests w)) url = Inr response
                \<and> (raise_for_status response \<noteq> None
                    \<or> (\<exists>err. parse_html e (resp_text response) = Inl err)))"
  shows "fst (scrape_ebay_listing e w url) = (None, [])
         \<and> fst (scrape_swappa_listing e w url) = (None, [])"
proof -
  from assms have "\<exists>err' w1. fetch_soup e w url = (Inl err', w1)"
    by (auto simp: fetch_soup_def session_get_def split: option.splits)
  then obtain err' w1 where "fetch_soup e w url = (Inl err', w1)"
    by blast
  then show ?thesis
    by (simp add: scrape_ebay_listing_def scrape_ebay_listing_try_def
        scrape_swappa_listing_def scrape_swappa_listing_try_def)
qed

theorem scrape_exception_caught_witness:
  "http_get ex_env (length (requests ex_world)) ''https://www.ebay.com/itm/404''
     = Inl RequestException
   \<and> fst (scrape_ebay_listing ex_env ex_world ''https://www.ebay.com/itm/404'') = (None, [])
   \<and> fst (scrape_swappa_listing ex_env ex_world ''https://www.ebay.com/itm/404'') = (None, [])"
proof -
  have h: "http_get ex_env (length (requests ex_world)) ''https://www.ebay.com/itm/404''
     = Inl RequestException"
    by (simp add: ex_env_def)
  from h scrape_exception_caught [of ex_env ex_world "''https://www.ebay.com/itm/404''"
      RequestException]
  show ?thesis
    by blast
qed

section \<open>Properties of the download of an image\<close>

lemma fs_only_refl [simp]: "fs_only w w"
  by (simp add: fs_only_def)

lemma fs_only_trans: "fs_only w w1 \<Longrightarrow> fs_only w1 w2 \<Longrightarrow> fs_only w w2"
  by (simp add: fs_only_def)

lemma fs_only_makedirs: "makedirs e w path ok = Inr w' \<Longrightarrow> fs_only w w'"
  by (auto simp: makedirs_def fs_only_def split: if_splits option.splits)

lemma fs_only_open_write: "open_write e w path = Inr w' \<Longrightarrow> fs_only w w'"
  by (auto simp: open_write_def fs_only_def split: if_splits option.splits)

lemma fs_only_file_write [simp]: "fs_only w (file_write w path data)"
  by (simp add: file_write_def fs_only_def)

lemma fs_only_os_remove: "os_remove e w path = Inr w' \<Longrightarrow> fs_only w w'"
  by (auto simp: os_remove_def fs_only_def split: if_splits option.splits)

lemma fs_only_files_update [simp]: "fs_only w (w\<lparr>files := f\<rparr>)"
  by (simp add: fs_only_def)

lemma fs_only_convert_to_jpg [simp]:
  "fs_only w (convert_to_jpg e w folder_path filename index file_path)"
proof (cases "files w file_path")
  case None
  then show ?thesis by (simp add: convert_to_jpg_def Let_def)
next
  case (Some data)
  note data = Some
  show ?thesis
  proof (cases "image_open e data")
    case (Inl err)
    with data show ?thesis by (simp add: convert_to_jpg_def Let_def)
  next
    case (Inr img)
    note img = Inr
    let ?jpg_path = "target_path folder_path filename index ''.jpg''"
    show ?thesis
    proof (cases "open_write e w ?jpg_path")
      case (Inl err)
      with data img show ?thesis by (simp add: convert_to_jpg_def Let_def)
    next
      case (Inr w1)
      note w1 = Inr
      have 0: "fs_only w w1"
        using w1 by (rule fs_only_open_write)
      show ?thesis
      proof (cases "jpeg_encode e img")
        case (Inl err)
        have "fs_only w (w1\<lparr>files := (files w1)(?jpg_path := None)\<rparr>)"
          using 0 fs_only_files_update fs_only_trans by blast
        with data img w1 Inl 0 show ?thesis
          by (simp add: convert_to_jpg_def Let_def)
      next
        case (Inr jpeg)
        note jpeg = Inr
        have 1: "fs_only w (file_write w1 ?jpg_path jpeg)"
          using 0 fs_only_file_write fs_only_trans by blast
        show ?thesis
        proof (cases "os_remove e (file_write w1 ?jpg_path jpeg) file_path")
          case (Inl err)
          with data img w1 jpeg 1 show ?thesis by (simp add: convert_to_jpg_def Let_def)
        next
          case (Inr w3)
          with data img w1 jpeg 1 fs_only_os_remove [OF Inr] show ?thesis
            by (auto simp: convert_to_jpg_def Let_def intro: fs_only_trans)
        qed
      qed
    qed
  qed
qed

lemma fs_only_create_folder:
  assumes "create_folder e w name = (r, w')"
  shows "fs_only w w'"
proof -
  let ?base = "path_join (home e) ''listing_images''"
  let ?m = "if \<not> path_exists w ?base then makedirs e w ?base False else Inr w"
  show ?thesis
  proof (cases ?m)
    case (Inl err)
    with assms show ?thesis by (simp add: create_folder_def Let_def)
  next
    case (Inr w1)
    then have 1: "fs_only w w1"
      by (auto split: if_splits dest: fs_only_makedirs)
    show ?thesis
    proof (cases "makedirs e w1 (path_join ?base (sanitize_filename name)) True")
      case (Inl err)
      with assms Inr 1 show ?thesis by (simp add: create_folder_def Let_def)
    next
      case (Inr w2)
      with assms \<open>?m = Inr w1\<close> 1 fs_only_makedirs [OF Inr] show ?thesis
        by (auto simp: create_folder_def Let_def intro: fs_only_trans)
    qed
  qed
qed

lemma path_exists_requests [simp]:
  "path_exists (w\<lparr>requests := rs\<rparr>) path = path_exists w path"
  by (simp add: path_exists_def)

lemma path_exists_calls [simp]:
  "path_exists (w\<lparr>calls := cs\<rparr>) path = path_exists w path"
  by (simp add: path_exists_def)

lemma download_image_try_effect:
  assumes "download_image_try e w url folder_path filename index = (r, w')"
  shows "successful_listings w' = successful_listings w
         \<and> failed_listings w' = failed_listings w
         \<and> calls w' = calls w
         \<and> requests w' = requests w @ [url]
         \<and> successful_images w' = successful_images w
              + (if r = Inr True \<and> \<not> already_downloaded e w url folder_path filename index
                 then 1 else 0)
         \<and> failed_images w' = failed_images w + (if r = Inr False then 1 else 0)"
proof -
  let ?w1 = "w\<lparr>requests := requests w @ [url]\<rparr>"
  note d = download_image_try_def session_get_def already_downloaded_def
  show ?thesis
  proof (cases "http_get e (length (requests w)) url")
    case (Inl err)
    with assms show ?thesis
      by (auto simp: d)
  next
    case (Inr response)
    note resp = Inr
    show ?thesis
    proof (cases "raise_for_status response")
      case (Some err)
      with assms resp show ?thesis
        by (auto simp: d)
    next
      case None
      note ok = None
      let ?ct = "case content_type_header response of None \<Rightarrow> [] | Some v \<Rightarrow> v"
      let ?ext = "ext_of_content_type ?ct"
      let ?fp = "target_path folder_path filename index ?ext"
      show ?thesis
      proof (cases "startswith ?ct ''image/'' \<and> \<not> path_exists w ?fp")
        case False
        with assms resp ok show ?thesis
          by (auto simp: d Let_def split: if_splits)
      next
        case True
        show ?thesis
        proof (cases "open_write e ?w1 ?fp")
          case (Inl err)
          with assms resp ok True show ?thesis
            by (auto simp: d Let_def)
        next
          case (Inr w2)
          let ?w3 = "file_write w2 ?fp (concat (body_chunks response))"
          have 3: "fs_only ?w1 ?w3"
            using fs_only_open_write [OF Inr] fs_only_file_write fs_only_trans by blast
          have 4: "fs_only ?w1 (convert_to_jpg e ?w3 folder_path filename index ?fp)"
            using 3 fs_only_convert_to_jpg fs_only_trans by blast
          from assms resp ok True Inr 3 4 show ?thesis
            by (auto simp: d Let_def fs_only_def split: if_splits option.splits)
        qed
      qed
    qed
  qed
qed

lemma already_downloaded_calls [simp]:
  "already_downloaded e (w\<lparr>calls := cs\<rparr>) url folder_path filename index
     = already_downloaded e w url folder_path filename index"
  by (simp add: already_downloaded_def Let_def split: sum.splits)

lemma download_image_effect:
  assumes "download_image e w url folder_path filename index = (r, w')"
  shows "successful_listings w' = successful_listings w
         \<and> failed_listings w' = failed_listings w
         \<and> calls w' = calls w @ [(url, folder_path, filename, index)]
         \<and> requests w' = requests w @ [url]
         \<and> successful_images w' = successful_images w
              + (if r \<and> \<not> already_downloaded e w url folder_path filename index then 1 else 0)
         \<and> failed_images w' = failed_images w + (if r then 0 else 1)"
proof -
  let ?w0 = "w\<lparr>calls := calls w @ [(url, folder_path, filename, index)]\<rparr>"
  obtain r0 w1 where t: "download_image_try e ?w0 url folder_path filename index = (r0, w1)"
    by (cases "download_image_try e ?w0 url folder_path filename index")
  note eff = download_image_try_effect [OF t]
  show ?thesis
  proof (cases r0)
    case (Inl err)
    with assms t eff show ?thesis
      by (auto simp: download_image_def)
  next
    case (Inr b)
    with assms t eff show ?thesis
      by (auto simp: download_image_def)
  qed
qed

lemma ext_of_content_type_image_exts: "ext_of_content_type ct \<in> set image_exts"
  by (simp add: ext_of_content_type_def image_exts_def)

lemma target_path_inj:
  assumes "target_path folder_path filename index ext1 = target_path folder_path filename index ext2"
  shows "ext1 = ext2"
proof -
  let ?p = "filename @ ''_'' @ str_int index"
  have sw: "\<And>ext. startswith (?p @ ext) ''/'' = startswith ?p ''/''"
    by (cases filename) simp_all
  from assms show ?thesis
    by (simp add: target_path_def path_join_def sw [simplified] split: if_splits)
qed

lemma path_exists_file_write [simp]: "path_exists (file_write w path data) path"
  by (simp add: path_exists_def file_write_def)

lemma path_exists_open_write:
  "open_write e w path = Inr w' \<Longrightarrow> path_exists w p \<Longrightarrow> path_exists w' p"
  by (auto simp: open_write_def path_exists_def split: if_splits option.splits)

lemma path_exists_file_write_other:
  "path_exists w p \<Longrightarrow> path_exists (file_write w path data) p"
  by (auto simp: path_exists_def file_write_def)

lemma path_exists_os_remove:
  "os_remove e w path = Inr w' \<Longrightarrow> path_exists w p \<Longrightarrow> p \<noteq> path \<Longrightarrow> path_exists w' p"
  by (auto simp: os_remove_def path_exists_def split: if_splits option.splits)

lemma path_exists_files_other:
  "path_exists w p \<Longrightarrow> p \<noteq> q \<Longrightarrow> path_exists (w\<lparr>files := (files w)(q := None)\<rparr>) p"
  by (simp add: path_exists_def)

lemma convert_to_jpg_exists:
  assumes "path_exists w (target_path folder_path filename index ext)" and "ext \<noteq> ''.jpg''"
  shows "path_exists
           (convert_to_jpg e w folder_path filename index
              (target_path folder_path filename index ext))
           (target_path folder_path filename index ext)
         \<or> path_exists
           (convert_to_jpg e w folder_path filename index
              (target_path folder_path filename index ext))
           (target_path folder_path filename index ''.jpg'')"
proof -
  let ?fp = "target_path folder_path filename index ext"
  let ?jp = "target_path folder_path filename index ''.jpg''"
  note d = convert_to_jpg_def Let_def
  have ne: "?jp \<noteq> ?fp" "?fp \<noteq> ?jp"
    using assms(2) target_path_inj by blast+
  show ?thesis
  proof (cases "files w ?fp")
    case None
    with assms(1) show ?thesis by (simp add: d)
  next
    case (Some data)
    note data = Some
    show ?thesis
    proof (cases "image_open e data")
      case (Inl err)
      with data assms(1) show ?thesis by (simp add: d)
    next
      case (Inr img)
      note img = Inr
      show ?thesis
      proof (cases "open_write e w ?jp")
        case (Inl err)
        with data img assms(1) show ?thesis by (simp add: d)
      next
        case (Inr w1)
        note w1 = Inr
        have 1: "path_exists w1 ?fp"
          using w1 assms(1) by (rule path_exists_open_write)
        show ?thesis
        proof (cases "jpeg_encode e img")
          case (Inl err)
          have "path_exists (w1\<lparr>files := (files w1)(?jp := None)\<rparr>) ?fp"
            using 1 ne(2) by (rule path_exists_files_other)
          with data img w1 Inl 1 show ?thesis by (simp add: d)
        next
          case (Inr jpeg)
          note jpeg = Inr
          show ?thesis
          proof (cases "os_remove e (file_write w1 ?jp jpeg) ?fp")
            case (Inl err)
            with data img w1 jpeg show ?thesis by (simp add: d)
          next
            case (Inr w3)
            have "path_exists w3 ?jp"
              using Inr path_exists_file_write ne(1) by (rule path_exists_os_remove)
            with data img w1 jpeg Inr show ?thesis by (simp add: d)
          qed
        qed
      qed
    qed
  qed
qed

lemma path_exists_successful_images [simp]:
  "path_exists (w\<lparr>successful_images := n\<rparr>) path = path_exists w path"
  by (simp add: path_exists_def)

lemma download_image_try_target:
  assumes "download_image_try e w url folder_path filename index = (Inr True, w')"
  shows "\<exists>ext. ext \<in> set image_exts \<and> path_exists w' (target_path folder_path filename index ext)"
proof -
  let ?w1 = "w\<lparr>requests := requests w @ [url]\<rparr>"
  note d = download_image_try_def session_get_def
  show ?thesis
  proof (cases "http_get e (length (requests w)) url")
    case (Inl err)
    with assms show ?thesis
      by (auto simp: d)
  next
    case (Inr response)
    note resp = Inr
    show ?thesis
    proof (cases "raise_for_status response")
      case (Some err)
      with assms resp show ?thesis
        by (auto simp: d)
    next
      case None
      note ok = None
      let ?ct = "case content_type_header response of None \<Rightarrow> [] | Some v \<Rightarrow> v"
      let ?ext = "ext_of_content_type ?ct"
      let ?fp = "target_path folder_path filename index ?ext"
      have ext: "?ext \<in> set image_exts"
        by (rule ext_of_content_type_image_exts)
      have jpg: "''.jpg'' \<in> set image_exts"
        by (simp add: image_exts_def)
      show ?thesis
      proof (cases "startswith ?ct ''image/''")
        case False
        with assms resp ok show ?thesis
          by (auto simp: d Let_def)
      next
        case True
        note img = True
        show ?thesis
        proof (cases "path_exists w ?fp")
          case True
          with assms resp ok img have "w' = ?w1"
            by (auto simp: d Let_def)
          with True ext show ?thesis
            by auto
        next
          case False
          note fresh = False
          show ?thesis
          proof (cases "open_write e ?w1 ?fp")
            case (Inl err)
            with assms resp ok img fresh show ?thesis
              by (auto simp: d Let_def)
          next
            case (Inr w2)
            let ?w3 = "file_write w2 ?fp (concat (body_chunks response))"
            let ?w4 = "if ?ext \<noteq> ''.jpg''
                       then convert_to_jpg e ?w3 folder_path filename index ?fp else ?w3"
            have 3: "path_exists ?w3 ?fp"
              by simp
            have 4: "path_exists ?w4 ?fp \<or> path_exists ?w4 (target_path folder_path filename index ''.jpg'')"
              using convert_to_jpg_exists [OF 3, of e] 3 by auto
            from assms resp ok img fresh Inr
            have "w' = ?w4\<lparr>successful_images := successful_images ?w4 + 1\<rparr>"
              by (auto simp: d Let_def split: option.splits)
            with 4 ext jpg show ?thesis
              by (metis path_exists_successful_images)
          qed
        qed
      qed
    qed
  qed
qed

lemma download_image_target:
  assumes "download_image e w url folder_path filename index = (True, w')"
  shows "\<exists>ext. ext \<in> set image_exts \<and> path_exists w' (target_path folder_path filename index ext)"
proof -
  let ?w0 = "w\<lparr>calls := calls w @ [(url, folder_path, filename, index)]\<rparr>"
  obtain r0 w1 where t: "download_image_try e ?w0 url folder_path filename index = (r0, w1)"
    by (cases "download_image_try e ?w0 url folder_path filename index")
  with assms have "r0 = Inr True" and "w1 = w'"
    by (auto simp: download_image_def split: sum.splits)
  with t show ?thesis
    using download_image_try_target by blast
qed

text \<open>
  C1 (as amended). When the request for the image succeeds with an image content type and
  the target file, named with the extension of that content type, exists already,
  \<open>download_image\<close> returns true after that one request, and leaves the files and the
  directories as they are.
\<close>

theorem download_image_existing_file:
  assumes "http_get e (length (requests w)) url = Inr response"
    and "raise_for_status response = None"
    and "content_type_header response = Some content_type"
    and "startswith content_type ''image/''"
    and "path_exists w
           (target_path folder_path filename index (ext_of_content_type content_type))"
  shows "fst (download_image e w url folder_path filename index)
         \<and> requests (snd (download_image e w url folder_path filename index))
             = requests w @ [url]
         \<and> files (snd (download_image e w url folder_path filename index)) = files w
         \<and> dirs (snd (download_image e w url folder_path filename index)) = dirs w"
  using assms
  by (simp add: download_image_def download_image_try_def session_get_def Let_def)

theorem download_image_existing_file_witness:
  "http_get ex_env (length (requests ex_world_rerun)) ''http://i/s-l1600/a.jpg''
     = Inr \<lparr>status_code = 200, content_type_header = Some ''image/jpeg'',
             resp_text = [], body_chunks = [''JFIF'', ''abc''], body_error = None\<rparr>
   \<and> startswith ''image/jpeg'' ''image/''
   \<and> path_exists ex_world_rerun
        (target_path ''/home/u/listing_images/Red_Lamp'' ''Red_Lamp'' 1
           (ext_of_content_type ''image/jpeg''))
   \<and> fst (download_image ex_env ex_world_rerun ''http://i/s-l1600/a.jpg''
             ''/home/u/listing_images/Red_Lamp'' ''Red_Lamp'' 1)
   \<and> requests (snd (download_image ex_env ex_world_rerun ''http://i/s-l1600/a.jpg''
                      ''/home/u/listing_images/Red_Lamp'' ''Red_Lamp'' 1))
       = requests ex_world_rerun @ [''http://i/s-l1600/a.jpg'']
   \<and> files (snd (download_image ex_env ex_world_rerun ''http://i/s-l1600/a.jpg''
                   ''/home/u/listing_images/Red_Lamp'' ''Red_Lamp'' 1))
       = files ex_world_rerun
   \<and> dirs (snd (download_image ex_env ex_world_rerun ''http://i/s-l1600/a.jpg''
                  ''/home/u/listing_images/Red_Lamp'' ''Red_Lamp'' 1))
       = dirs ex_world_rerun"
proof -
  let ?response = "\<lparr>status_code = 200, content_type_header = Some ''image/jpeg'',
             resp_text = [], body_chunks = [''JFIF'', ''abc''], body_error = None\<rparr>"
  have h1: "http_get ex_env (length (requests ex_world_rerun)) ''http://i/s-l1600/a.jpg''
     = Inr ?response"
    by (simp add: ex_env_def)
  have h2: "raise_for_status ?response = None"
    by (simp add: raise_for_status_def)
  have h3: "content_type_header ?response = Some ''image/jpeg''"
    by simp
  have h4: "startswith ''image/jpeg'' ''image/''"
    by simp
  have h5: "path_exists ex_world_rerun
        (target_path ''/home/u/listing_images/Red_Lamp'' ''Red_Lamp'' 1
           (ext_of_content_type ''image/jpeg''))"
    by code_simp
  from h1 h4 h5 download_image_existing_file [OF h1 h2 h3 h4 h5] show ?thesis
    by blast
qed

text \<open>
  C1 as stated fails: the extension of the target comes from the response, so
  the request is issued before the disk is looked at. A download run twice into the
  folder of the listing issues two requests, the second with the target on disk; a call
  with the target on disk issues its request; and when the request fails, the call
  returns false although the file of an earlier run is there.
\<close>

theorem download_image_rerun_counterexample:
  "fst (download_image ex_env ex_world_folder ''http://i/s-l1600/a.jpg''
          ''/home/u/listing_images/Red_Lamp'' ''Red_Lamp'' 1)
   \<and> path_exists
        (snd (download_image ex_env ex_world_folder ''http://i/s-l1600/a.jpg''
                ''/home/u/listing_images/Red_Lamp'' ''Red_Lamp'' 1))
        ''/home/u/listing_images/Red_Lamp/Red_Lamp_1.jpg''
   \<and> fst (download_image ex_env
             (snd (download_image ex_env ex_world_folder ''http://i/s-l1600/a.jpg''
                     ''/home/u/listing_images/Red_Lamp'' ''Red_Lamp'' 1))
             ''http://i/s-l1600/a.jpg'' ''/home/u/listing_images/Red_Lamp'' ''Red_Lamp'' 1)
   \<and> requests
        (snd (download_image ex_env
                (snd (download_image ex_env ex_world_folder ''http://i/s-l1600/a.jpg''
                        ''/home/u/listing_images/Red_Lamp'' ''Red_Lamp'' 1))
                ''http://i/s-l1600/a.jpg'' ''/home/u/listing_images/Red_Lamp'' ''Red_Lamp'' 1))
       = [''http://i/s-l1600/a.jpg'', ''http://i/s-l1600/a.jpg'']
   \<and> path_exists ex_world_rerun ''/home/u/listing_images/Red_Lamp/Red_Lamp_1.jpg''
   \<and> requests
        (snd (download_image ex_env ex_world_rerun ''http://i/s-l1600/a.jpg''
                ''/home/u/listing_images/Red_Lamp'' ''Red_Lamp'' 1))
       = [''http://i/s-l1600/a.jpg'']
   \<and> \<not> fst (download_image ex_env ex_world_rerun ''http://i/gone/a.jpg''
               ''/home/u/listing_images/Red_Lamp'' ''Red_Lamp'' 1)"
  by code_simp

text \<open>
  C2, at the input where the code departs from it: with the target on disk, the call
  returns true and leaves both image counters as they were. By \<open>download_image_effect\<close>
  every other call adds one to exactly one of them, the one that its result names.
\<close>

theorem download_image_existing_file_not_counted:
  "files ex_world_rerun ''/home/u/listing_images/Red_Lamp/Red_Lamp_1.jpg'' = Some ''JFIFabc''
   \<and> target_path ''/home/u/listing_images/Red_Lamp'' ''Red_Lamp'' 1 ''.jpg''
       = ''/home/u/listing_images/Red_Lamp/Red_Lamp_1.jpg''
   \<and> fst (download_image ex_env ex_world_rerun ''http://i/s-l1600/a.jpg''
             ''/home/u/listing_images/Red_Lamp'' ''Red_Lamp'' 1)
   \<and> successful_images
        (snd (download_image ex_env ex_world_rerun ''http://i/s-l1600/a.jpg''
                ''/home/u/listing_images/Red_Lamp'' ''Red_Lamp'' 1))
       = successful_images ex_world_rerun
   \<and> failed_images
        (snd (download_image ex_env ex_world_rerun ''http://i/s-l1600/a.jpg''
                ''/home/u/listing_images/Red_Lamp'' ''Red_Lamp'' 1))
       = failed_images ex_world_rerun"
  by code_simp

section \<open>Properties of the processing of a listing\<close>

lemma download_loop_effect:
  "successful_listings
     (foldl (\<lambda>w (i, img_url). snd (download_image e w img_url folder_path filename_base (int i + 1)))
        w (enumerate n image_urls)) = successful_listings w
   \<and> failed_listings
     (foldl (\<lambda>w (i, img_url). snd (download_image e w img_url folder_path filename_base (int i + 1)))
        w (enumerate n image_urls)) = failed_listings w
   \<and> calls
     (foldl (\<lambda>w (i, img_url). snd (download_image e w img_url folder_path filename_base (int i + 1)))
        w (enumerate n image_urls))
     = calls w @ map (\<lambda>(i, img_url). (img_url, folder_path, filename_base, int i + 1))
                  (enumerate n image_urls)"
proof (induction image_urls arbitrary: w n)
  case Nil
  show ?case by simp
next
  case (Cons u us)
  obtain r w1 where d: "download_image e w u folder_path filename_base (int n + 1) = (r, w1)"
    by (cases "download_image e w u folder_path filename_base (int n + 1)")
  from download_image_effect [OF d] Cons [of w1 "Suc n"] d show ?case
    by simp
qed

lemma download_images_effect:
  "successful_listings (download_images e w folder_path filename_base image_urls)
     = successful_listings w
   \<and> failed_listings (download_images e w folder_path filename_base image_urls)
     = failed_listings w
   \<and> calls (download_images e w folder_path filename_base image_urls)
     = calls w @ map (\<lambda>(i, img_url). (img_url, folder_path, filename_base, int i + 1))
                  (enumerate 0 image_urls)"
  unfolding download_images_def by (rule download_loop_effect)

lemma fetch_soup_world: "fetch_soup e w url = (r, w1) \<Longrightarrow> w1 = w\<lparr>requests := requests w @ [url]\<rparr>"
  by (auto simp: fetch_soup_def session_get_def split: sum.splits option.splits)

lemma scrape_ebay_listing_world:
  assumes "scrape_ebay_listing e w url = (r, w1)"
  shows "w1 = w\<lparr>requests := requests w @ [url]\<rparr>"
proof -
  obtain r0 w0 where f: "fetch_soup e w url = (r0, w0)"
    by (cases "fetch_soup e w url")
  from assms f fetch_soup_world [OF f] show ?thesis
    by (cases r0) (auto simp: scrape_ebay_listing_def scrape_ebay_listing_try_def Let_def)
qed

lemma scrape_swappa_listing_world:
  assumes "scrape_swappa_listing e w url = (r, w1)"
  shows "w1 = w\<lparr>requests := requests w @ [url]\<rparr>"
proof -
  obtain r0 w0 where f: "fetch_soup e w url = (r0, w0)"
    by (cases "fetch_soup e w url")
  from assms f fetch_soup_world [OF f] show ?thesis
    by (cases r0)
      (auto simp: scrape_swappa_listing_def scrape_swappa_listing_try_def Let_def
        split: sum.splits)
qed

lemma scrape_listing_world:
  "scrape_listing e w url domain = Some (r, w1) \<Longrightarrow> w1 = w\<lparr>requests := requests w @ [url]\<rparr>"
  by (auto simp: scrape_listing_def split: if_splits
      dest: scrape_ebay_listing_world scrape_swappa_listing_world)

lemma process_listing_try_success:
  assumes "urlparse e url = Inr (scheme, netloc)"
    and "scrape_listing e w url (lower netloc) = Some ((Some title, image_urls), w1)"
    and "title \<noteq> []" and "image_urls \<noteq> []"
    and "create_folder e w1 title = (Inr folder_path, w2)"
    and "open_write e w2 (path_join folder_path ''source_url.txt'') = Inr w3"
  shows "process_listing_try e w url =
           (Inr True,
            (download_images e (file_write w3 (path_join folder_path ''source_url.txt'') url)
               folder_path (sanitize_filename title) image_urls)
            \<lparr>successful_listings :=
               successful_listings
                 (download_images e
                    (file_write w3 (path_join folder_path ''source_url.txt'') url)
                    folder_path (sanitize_filename title) image_urls) + 1\<rparr>)"
  using assms by (simp add: process_listing_try_def Let_def)

lemma setup_frame:
  assumes "scrape_listing e w url domain = Some (r, w1)"
    and "create_folder e w1 title = (Inr folder_path, w2)"
    and "open_write e w2 path = Inr w3"
  shows "successful_listings (file_write w3 path data) = successful_listings w
         \<and> failed_listings (file_write w3 path data) = failed_listings w
         \<and> calls (file_write w3 path data) = calls w"
proof -
  have 1: "w1 = w\<lparr>requests := requests w @ [url]\<rparr>"
    using assms(1) by (rule scrape_listing_world)
  have 2: "fs_only w1 w2"
    using assms(2) by (rule fs_only_create_folder)
  have 3: "fs_only w2 w3"
    using assms(3) by (rule fs_only_open_write)
  have 4: "fs_only w3 (file_write w3 path data)"
    by simp
  from 1 2 3 4 show ?thesis
    by (simp add: fs_only_def)
qed

lemma process_listing_try_effect:
  assumes "process_listing_try e w url = (r, w')"
  shows "successful_listings w' = successful_listings w + (if r = Inr True then 1 else 0)
         \<and> failed_listings w' = failed_listings w + (if r = Inr False then 1 else 0)"
proof (cases "urlparse e url")
  case (Inl err)
  with assms show ?thesis
    by (auto simp: process_listing_try_def)
next
  case (Inr parsed)
  obtain scheme netloc where parsed: "parsed = (scheme, netloc)"
    by (cases parsed)
  note up = Inr [unfolded parsed]
  show ?thesis
  proof (cases "scrape_listing e w url (lower netloc)")
    case None
    with assms up show ?thesis
      by (auto simp: process_listing_try_def)
  next
    case (Some res)
    obtain title image_urls w1 where res: "res = ((title, image_urls), w1)"
      by (cases res) auto
    note sl = Some [unfolded res]
    have 1: "w1 = w\<lparr>requests := requests w @ [url]\<rparr>"
      using sl by (rule scrape_listing_world)
    show ?thesis
    proof (cases "title = None \<or> title = Some [] \<or> image_urls = []")
      case True
      with assms up sl 1 show ?thesis
        by (auto simp: process_listing_try_def split: option.splits)
    next
      case False
      then obtain t where t: "title = Some t" "t \<noteq> []" "image_urls \<noteq> []"
        by (cases title) auto
      obtain cf w2 where cf: "create_folder e w1 t = (cf, w2)"
        by (cases "create_folder e w1 t")
      have 2: "fs_only w1 w2"
        using cf by (rule fs_only_create_folder)
      show ?thesis
      proof (cases cf)
        case (Inl err)
        with assms up sl t cf 1 2 show ?thesis
          by (auto simp: process_listing_try_def fs_only_def)
      next
        case (Inr folder_path)
        note fp = Inr
        show ?thesis
        proof (cases "open_write e w2 (path_join folder_path ''source_url.txt'')")
          case (Inl err)
          with assms up sl t cf fp 1 2 show ?thesis
            by (auto simp: process_listing_try_def fs_only_def)
        next
          case (Inr w3)
          from process_listing_try_success [OF up sl [unfolded t(1)] t(2) t(3) cf [unfolded fp] Inr]
            setup_frame [OF sl cf [unfolded fp] Inr, of url]
            download_images_effect [of e
              "file_write w3 (path_join folder_path ''source_url.txt'') url"
              folder_path "sanitize_filename t" image_urls]
            assms
          show ?thesis by auto
        qed
      qed
    qed
  qed
qed

lemma ex_listing_setup:
  "\<exists>w2 w3.
     urlparse ex_env ''https://www.ebay.com/itm/1'' = Inr (''https'', ''www.ebay.com'')
     \<and> scrape_listing ex_env ex_world ''https://www.ebay.com/itm/1'' (lower ''www.ebay.com'')
         = Some ((Some ''Red Lamp'', [''http://i/s-l1600/a.jpg'', ''http://i/s-l1600/b.jpg'']),
                 ex_world\<lparr>requests := requests ex_world @ [''https://www.ebay.com/itm/1'']\<rparr>)
     \<and> create_folder ex_env
           (ex_world\<lparr>requests := requests ex_world @ [''https://www.ebay.com/itm/1'']\<rparr>)
           ''Red Lamp''
         = (Inr ''/home/u/listing_images/Red_Lamp'', w2)
     \<and> open_write ex_env w2 (path_join ''/home/u/listing_images/Red_Lamp'' ''source_url.txt'')
         = Inr w3"
proof -
  let ?url = "''https://www.ebay.com/itm/1''"
  let ?w1 = "ex_world\<lparr>requests := requests ex_world @ [?url]\<rparr>"
  let ?s = "scrape_listing ex_env ex_world ?url (lower ''www.ebay.com'')"
  let ?c = "create_folder ex_env ?w1 ''Red Lamp''"
  let ?o = "open_write ex_env (snd ?c)
              (path_join ''/home/u/listing_images/Red_Lamp'' ''source_url.txt'')"
  have h1: "urlparse ex_env ?url = Inr (''https'', ''www.ebay.com'')"
    by (simp add: ex_env_def)
  have "\<not> Option.is_none ?s"
    by code_simp
  then obtain r w1 where s: "?s = Some (r, w1)"
    by (cases ?s) (auto simp: Option.is_none_def)
  have "fst (the ?s) = (Some ''Red Lamp'', [''http://i/s-l1600/a.jpg'', ''http://i/s-l1600/b.jpg''])"
    by code_simp
  with s have r: "r = (Some ''Red Lamp'', [''http://i/s-l1600/a.jpg'', ''http://i/s-l1600/b.jpg''])"
    by simp
  have w1: "w1 = ?w1"
    using s by (rule scrape_listing_world)
  have "fst ?c = Inr ''/home/u/listing_images/Red_Lamp''"
    by code_simp
  then have h5: "?c = (Inr ''/home/u/listing_images/Red_Lamp'', snd ?c)"
    by (metis prod.collapse)
  have "\<not> isl ?o"
    by code_simp
  then have h6: "?o = Inr (projr ?o)"
    by simp
  from h1 s r w1 h5 h6 show ?thesis
    by blast
qed

text \<open>
  C6. When the extraction returns a title and image URLs, neither empty, and the folder
  and the record of the source URL are made, \<open>process_listing\<close> returns true and adds
  one to \<open>successful_listings\<close> and nothing to \<open>failed_listings\<close>, whatever becomes of
  the downloads of the images.
\<close>

theorem process_listing_success:
  assumes "urlparse e url = Inr (scheme, netloc)"
    and "scrape_listing e w url (lower netloc) = Some ((Some title, image_urls), w1)"
    and "title \<noteq> []" and "image_urls \<noteq> []"
    and "create_folder e w1 title = (Inr folder_path, w2)"
    and "open_write e w2 (path_join folder_path ''source_url.txt'') = Inr w3"
  shows "fst (process_listing e w url)
         \<and> successful_listings (snd (process_listing e w url)) = successful_listings w + 1
         \<and> failed_listings (snd (process_listing e w url)) = failed_listings w"
  using process_listing_try_success [OF assms]
    setup_frame [OF assms(2) assms(5) assms(6), of url]
    download_images_effect [of e "file_write w3 (path_join folder_path ''source_url.txt'') url"
      folder_path "sanitize_filename title" image_urls]
  by (simp add: process_listing_def)

theorem process_listing_success_witness:
  "fst (process_listing ex_env ex_world ''https://www.ebay.com/itm/1'')
   \<and> successful_listings (snd (process_listing ex_env ex_world ''https://www.ebay.com/itm/1''))
       = successful_listings ex_world + 1
   \<and> failed_listings (snd (process_listing ex_env ex_world ''https://www.ebay.com/itm/1''))
       = failed_listings ex_world
   \<and> failed_images (snd (process_listing ex_env ex_world ''https://www.ebay.com/itm/1'')) = 1
   \<and> successful_images (snd (process_listing ex_env ex_world ''https://www.ebay.com/itm/1'')) = 1"
proof -
  from ex_listing_setup obtain w2 w3 where
    h1: "urlparse ex_env ''https://www.ebay.com/itm/1'' = Inr (''https'', ''www.ebay.com'')" and
    h2: "scrape_listing ex_env ex_world ''https://www.ebay.com/itm/1'' (lower ''www.ebay.com'')
         = Some ((Some ''Red Lamp'', [''http://i/s-l1600/a.jpg'', ''http://i/s-l1600/b.jpg'']),
                 ex_world\<lparr>requests := requests ex_world @ [''https://www.ebay.com/itm/1'']\<rparr>)" and
    h5: "create_folder ex_env
           (ex_world\<lparr>requests := requests ex_world @ [''https://www.ebay.com/itm/1'']\<rparr>)
           ''Red Lamp''
         = (Inr ''/home/u/listing_images/Red_Lamp'', w2)" and
    h6: "open_write ex_env w2 (path_join ''/home/u/listing_images/Red_Lamp'' ''source_url.txt'')
         = Inr w3"
    by blast
  have h3: "''Red Lamp'' \<noteq> []" and h4: "[''http://i/s-l1600/a.jpg'', ''http://i/s-l1600/b.jpg''] \<noteq> []"
    by simp_all
  have images:
    "failed_images (snd (process_listing ex_env ex_world ''https://www.ebay.com/itm/1'')) = 1
     \<and> successful_images (snd (process_listing ex_env ex_world ''https://www.ebay.com/itm/1'')) = 1"
    by code_simp
  from process_listing_success [OF h1 h2 h3 h4 h5 h6] images show ?thesis
    by blast
qed

text \<open>
  C8 (as amended). When the extraction returns a title and image URLs, neither empty, and
  the folder and the record of the source URL are made, \<open>process_listing\<close> calls
  \<open>download_image\<close> once for each image URL, in the order of the extraction, with the
  folder, the sanitized title and the index \<open>i + 1\<close> for the URL at position \<open>i\<close>; and
  a call with these arguments that returns true leaves a file named by the sanitized
  title, an underscore, the index and an extension in the folder.
\<close>

theorem process_listing_download_calls:
  assumes "urlparse e url = Inr (scheme, netloc)"
    and "scrape_listing e w url (lower netloc) = Some ((Some title, image_urls), w1)"
    and "title \<noteq> []" and "image_urls \<noteq> []"
    and "create_folder e w1 title = (Inr folder_path, w2)"
    and "open_write e w2 (path_join folder_path ''source_url.txt'') = Inr w3"
  shows "calls (snd (process_listing e w url))
           = calls w @ map (\<lambda>(i, img_url). (img_url, folder_path, sanitize_filename title, int i + 1))
                        (enumerate 0 image_urls)
         \<and> (\<forall>w0 w0' img_url i.
               download_image e w0 img_url folder_path (sanitize_filename title) (int i + 1)
                 = (True, w0')
               \<longrightarrow> (\<exists>ext. ext \<in> set image_exts
                      \<and> path_exists w0'
                           (path_join folder_path
                              (sanitize_filename title @ ''_'' @ str_int (int i + 1) @ ext))))"
proof -
  have "calls (snd (process_listing e w url))
           = calls w @ map (\<lambda>(i, img_url). (img_url, folder_path, sanitize_filename title, int i + 1))
                        (enumerate 0 image_urls)"
    using process_listing_try_success [OF assms]
      setup_frame [OF assms(2) assms(5) assms(6), of url]
      download_images_effect [of e "file_write w3 (path_join folder_path ''source_url.txt'') url"
        folder_path "sanitize_filename title" image_urls]
    by (simp add: process_listing_def)
  moreover have "\<And>w0 w0' img_url i.
      download_image e w0 img_url folder_path (sanitize_filename title) (int i + 1) = (True, w0')
      \<Longrightarrow> \<exists>ext. ext \<in> set image_exts
            \<and> path_exists w0'
                 (path_join folder_path
                    (sanitize_filename title @ ''_'' @ str_int (int i + 1) @ ext))"
    using download_image_target [unfolded target_path_def] by blast
  ultimately show ?thesis
    by blast
qed

theorem process_listing_download_calls_witness:
  "calls (snd (process_listing ex_env ex_world ''https://www.ebay.com/itm/1''))
     = calls ex_world
       @ [(''http://i/s-l1600/a.jpg'', ''/home/u/listing_images/Red_Lamp'',
           sanitize_filename ''Red Lamp'', 1),
          (''http://i/s-l1600/b.jpg'', ''/home/u/listing_images/Red_Lamp'',
           sanitize_filename ''Red Lamp'', 2)]
   \<and> sanitize_filename ''Red Lamp'' = ''Red_Lamp''
   \<and> fst (download_image ex_env ex_world_folder ''http://i/s-l1600/a.jpg''
             ''/home/u/listing_images/Red_Lamp'' ''Red_Lamp'' 1)
   \<and> (\<exists>ext. ext \<in> set image_exts
          \<and> path_exists
               (snd (download_image ex_env ex_world_folder ''http://i/s-l1600/a.jpg''
                       ''/home/u/listing_images/Red_Lamp'' ''Red_Lamp'' 1))
               (path_join ''/home/u/listing_images/Red_Lamp''
                  (''Red_Lamp'' @ ''_'' @ str_int 1 @ ext)))"
proof -
  from ex_listing_setup obtain w2 w3 where
    h1: "urlparse ex_env ''https://www.ebay.com/itm/1'' = Inr (''https'', ''www.ebay.com'')" and
    h2: "scrape_listing ex_env ex_world ''https://www.ebay.com/itm/1'' (lower ''www.ebay.com'')
         = Some ((Some ''Red Lamp'', [''http://i/s-l1600/a.jpg'', ''http://i/s-l1600/b.jpg'']),
                 ex_world\<lparr>requests := requests ex_world @ [''https://www.ebay.com/itm/1'']\<rparr>)" and
    h5: "create_folder ex_env
           (ex_world\<lparr>requests := requests ex_world @ [''https://www.ebay.com/itm/1'']\<rparr>)
           ''Red Lamp''
         = (Inr ''/home/u/listing_images/Red_Lamp'', w2)" and
    h6: "open_write ex_env w2 (path_join ''/home/u/listing_images/Red_Lamp'' ''source_url.txt'')
         = Inr w3"
    by blast
  have h3: "''Red Lamp'' \<noteq> []" and h4: "[''http://i/s-l1600/a.jpg'', ''http://i/s-l1600/b.jpg''] \<noteq> []"
    by simp_all
  have s: "sanitize_filename ''Red Lamp'' = ''Red_Lamp''"
    by code_simp
  have d: "fst (download_image ex_env ex_world_folder ''http://i/s-l1600/a.jpg''
             ''/home/u/listing_images/Red_Lamp'' ''Red_Lamp'' 1)"
    by code_simp
  then have d': "download_image ex_env ex_world_folder ''http://i/s-l1600/a.jpg''
             ''/home/u/listing_images/Red_Lamp'' ''Red_Lamp'' (int 0 + 1)
       = (True, snd (download_image ex_env ex_world_folder ''http://i/s-l1600/a.jpg''
             ''/home/u/listing_images/Red_Lamp'' ''Red_Lamp'' 1))"
    by (simp add: prod_eq_iff)
  note t = process_listing_download_calls [OF h1 h2 h3 h4 h5 h6]
  from t have c: "calls (snd (process_listing ex_env ex_world ''https://www.ebay.com/itm/1''))
     = calls ex_world
       @ [(''http://i/s-l1600/a.jpg'', ''/home/u/listing_images/Red_Lamp'',
           sanitize_filename ''Red Lamp'', 1),
          (''http://i/s-l1600/b.jpg'', ''/home/u/listing_images/Red_Lamp'',
           sanitize_filename ''Red Lamp'', 2)]"
    by (simp add: enumerate_eq_zip upt_rec)
  from t [THEN conjunct2, rule_format, of ex_world_folder "''http://i/s-l1600/a.jpg''" 0, unfolded s, OF d']
  have f: "\<exists>ext. ext \<in> set image_exts
          \<and> path_exists
               (snd (download_image ex_env ex_world_folder ''http://i/s-l1600/a.jpg''
                       ''/home/u/listing_images/Red_Lamp'' ''Red_Lamp'' 1))
               (path_join ''/home/u/listing_images/Red_Lamp''
                  (''Red_Lamp'' @ ''_'' @ str_int 1 @ ext))"
    by simp
  from c s d f show ?thesis
    by blast
qed

text \<open>
  C8 as stated fails: a listing is extracted, with two image URLs, the folder cannot be
  made, and \<open>download_image\<close> is never called.
\<close>

theorem process_listing_no_folder_counterexample:
  "fst (the (scrape_listing ex_env_readonly ex_world ''https://www.ebay.com/itm/1''
               (lower ''www.ebay.com'')))
     = (Some ''Red Lamp'', [''http://i/s-l1600/a.jpg'', ''http://i/s-l1600/b.jpg''])
   \<and> \<not> fst (process_listing ex_env_readonly ex_world ''https://www.ebay.com/itm/1'')
   \<and> calls (snd (process_listing ex_env_readonly ex_world ''https://www.ebay.com/itm/1'')) = []
   \<and> failed_listings (snd (process_listing ex_env_readonly ex_world ''https://www.ebay.com/itm/1''))
       = 1"
  by code_simp

text \<open>
  C10. Every call of \<open>process_listing\<close> adds one to exactly one of
  \<open>successful_listings\<close> and \<open>failed_listings\<close>: to the first when it returns true, to
  the second when it returns false. An exception raised in its body is not raised by the
  call: the call returns false and counts a failed listing.
\<close>

theorem process_listing_counts_once:
  "successful_listings (snd (process_listing e w url))
     = successful_listings w + (if fst (process_listing e w url) then 1 else 0)
   \<and> failed_listings (snd (process_listing e w url))
     = failed_listings w + (if fst (process_listing e w url) then 0 else 1)
   \<and> (\<forall>err w1. process_listing_try e w url = (Inl err, w1)
         \<longrightarrow> process_listing e w url
               = (False, w1\<lparr>failed_listings := failed_listings w1 + 1\<rparr>))"
proof -
  obtain r w' where t: "process_listing_try e w url = (r, w')"
    by (cases "process_listing_try e w url")
  from process_listing_try_effect [OF t] t show ?thesis
    by (cases r) (auto simp: process_listing_def)
qed

theorem process_listing_counts_once_witness:
  "fst (process_listing ex_env ex_world ''https://www.ebay.com/itm/1'')
   \<and> successful_listings (snd (process_listing ex_env ex_world ''https://www.ebay.com/itm/1''))
       = successful_listings ex_world + 1
   \<and> failed_listings (snd (process_listing ex_env ex_world ''https://www.ebay.com/itm/1''))
       = failed_listings ex_world + 0
   \<and> \<not> fst (process_listing ex_env ex_world ''https://example.org/item/7'')
   \<and> successful_listings (snd (process_listing ex_env ex_world ''https://example.org/item/7''))
       = successful_listings ex_world + 0
   \<and> failed_listings (snd (process_listing ex_env ex_world ''https://example.org/item/7''))
       = failed_listings ex_world + 1
   \<and> process_listing_try ex_env ex_world ''http://[::1'' = (Inl ValueError, ex_world)
   \<and> process_listing ex_env ex_world ''http://[::1''
       = (False, ex_world\<lparr>failed_listings := failed_listings ex_world + 1\<rparr>)"
proof -
  have a: "fst (process_listing ex_env ex_world ''https://www.ebay.com/itm/1'')"
    and b: "\<not> fst (process_listing ex_env ex_world ''https://example.org/item/7'')"
    by code_simp+
  have c: "process_listing_try ex_env ex_world ''http://[::1'' = (Inl ValueError, ex_world)"
    by (simp add: process_listing_try_def ex_env_def)
  note t1 = process_listing_counts_once [of ex_env ex_world "''https://www.ebay.com/itm/1''"]
  note t2 = process_listing_counts_once [of ex_env ex_world "''https://example.org/item/7''"]
  note t3 = process_listing_counts_once [of ex_env ex_world "''http://[::1''"]
  from t3 c have d: "process_listing ex_env ex_world ''http://[::1''
       = (False, ex_world\<lparr>failed_listings := failed_listings ex_world + 1\<rparr>)"
    by blast
  from t1 t2 a b c d show ?thesis
    by simp
qed

end
